theory Spec2Isabelle
  imports Main
begin

section \<open>Values the controller reads\<close>

text \<open>
  The exceptions a detection pass can meet: a \<^verbatim>\<open>TypeError\<close> of the JavaScript runtime
  (a property read on \<^verbatim>\<open>undefined\<close>), the rejection of an \<^verbatim>\<open>addToken\<close> call, and
  the error the balance contract's callback reports.
\<close>

datatype js_error = TypeError | RegistrationError | RpcError string

text \<open>
  An element of \<^verbatim>\<open>tokensController.state.ignoredTokens\<close>. The controller reads such
  an element in two ways: line 75 reads its \<^verbatim>\<open>address\<close> property, line 99 passes the
  element itself to the comparison. Both shapes are therefore kept apart: an address
  string, or an object whose \<^verbatim>\<open>address\<close> property holds a string or is missing.
\<close>

datatype hidden_token = HiddenAddress string | HiddenObject "string option"

text \<open>
  \<^verbatim>\<open>token.address\<close> for an element of the ignored list: a string primitive has no such
  property and yields \<^verbatim>\<open>undefined\<close>. \<open>None\<close> stands for a value that is not a string.
\<close>

fun address_property :: "hidden_token \<Rightarrow> string option" where
  "address_property (HiddenAddress s) = None"
| "address_property (HiddenObject a) = a"

text \<open>The element itself, as an operand of the comparison: a string or not a string.\<close>

fun string_value :: "hidden_token \<Rightarrow> string option" where
  "string_value (HiddenAddress s) = Some s"
| "string_value (HiddenObject a) = None"

text \<open>\<^verbatim>\<open>String.prototype.toLowerCase\<close> on the ASCII letters of an address.\<close>

definition toLowerCase_char :: "char \<Rightarrow> char" where
  "toLowerCase_char c =
     (case map_of (zip ''ABCDEFGHIJKLMNOPQRSTUVWXYZ'' ''abcdefghijklmnopqrstuvwxyz'') c of
        None \<Rightarrow> c
      | Some l \<Rightarrow> l)"

definition toLowerCase :: "string \<Rightarrow> string" where
  "toLowerCase s = map toLowerCase_char s"

text \<open>
  Modelled from the spec: \<^verbatim>\<open>isEqualCaseInsensitive\<close> of \<^verbatim>\<open>ui/helpers/utils/util\<close> is
  imported by the controller and is not among the sources. The spec asks that addresses
  be treated as equal regardless of letter case; an operand that is not a string (the
  \<^verbatim>\<open>undefined\<close> of a missing property, an object) is equal to nothing.
\<close>

fun isEqualCaseInsensitive :: "string option \<Rightarrow> string option \<Rightarrow> bool" where
  "isEqualCaseInsensitive (Some value1) (Some value2) = (toLowerCase value1 = toLowerCase value2)"
| "isEqualCaseInsensitive _ _ = False"

text \<open>
  Modelled from the spec: \<^verbatim>\<open>MINUTE\<close> of \<^verbatim>\<open>shared/constants/time\<close> is not among the
  sources; the spec gives the default poll period as 180000 ms, three minutes.
\<close>

definition MINUTE :: int where
  "MINUTE = 60000"

definition DEFAULT_INTERVAL :: int where
  "DEFAULT_INTERVAL = MINUTE * 3"

text \<open>
  Modelled from the spec: \<^verbatim>\<open>MAINNET_CHAIN_ID\<close> of \<^verbatim>\<open>shared/constants/network\<close> is not
  among the sources; the spec calls it a fixed constant compared exactly with the
  current chain identifier. The value here is the identifier of the Ethereum main
  network; the theorems hold for any value.
\<close>

definition MAINNET_CHAIN_ID :: string where
  "MAINNET_CHAIN_ID = ''0x1''"

text \<open>
  The static registry \<^verbatim>\<open>contracts\<close> of \<^verbatim>\<open>@metamask/contract-metadata\<close>: an object
  from contract address to metadata, here an association list in the order
  \<^verbatim>\<open>for ... in\<close> enumerates the keys. It is a parameter of every function that reads it.
\<close>

record contract =
  erc20 :: bool
  symbol :: string
  decimals :: nat

type_synonym contracts = "(string \<times> contract) list"

section \<open>Collaborators and the controller's state\<close>

record token =
  address :: string

record preferences_store =
  pref_selectedAddress :: "string option"

record tokens_controller =
  tokens :: "token list"
  ignoredTokens :: "hidden_token list"

record network_controller =
  chainId :: string
  provider :: nat

datatype keyring_store = KeyringMemStore

datatype feed = PreferencesFeed | TokensFeed | KeyringFeed

record config =
  cfg_interval :: "int option"
  cfg_preferences :: "preferences_store option"
  cfg_network :: "network_controller option"
  cfg_keyringMemStore :: "keyring_store option"
  cfg_tokensController :: "tokens_controller option"

text \<open>
  The fields of a \<^verbatim>\<open>DetectTokensController\<close>; \<open>None\<close> is \<^verbatim>\<open>undefined\<close>. The fields
  \<open>network\<close>, \<open>keyringMemStore\<close> and \<open>handle\<close> are the source's \<^verbatim>\<open>_network\<close>,
  \<^verbatim>\<open>_keyringMemStore\<close> and \<^verbatim>\<open>_handle\<close>; \<open>web3\<close> is the provider the \<^verbatim>\<open>Web3\<close> instance
  is bound to; \<open>subscriptions\<close> records the feeds the controller has subscribed to.
\<close>

record detector =
  tokensController :: "tokens_controller option"
  preferences :: "preferences_store option"
  network :: "network_controller option"
  web3 :: "nat option"
  keyringMemStore :: "keyring_store option"
  selectedAddress :: "string option"
  tokenAddresses :: "string list option"
  hiddenTokens :: "hidden_token list option"
  isOpen :: "bool option"
  isUnlocked :: "bool option"
  handle :: "nat option"
  subscriptions :: "feed list"

text \<open>
  The host's timer table, restricted to the timers whose callback is this controller's
  \<^verbatim>\<open>detectNewTokens\<close>: the active timers with their periods, and the next identifier
  \<^verbatim>\<open>setInterval\<close> hands out (identifiers are never reused, and every one is truthy).
\<close>

record timers =
  next_id :: nat
  active :: "(nat \<times> int) list"

definition setInterval :: "int \<Rightarrow> timers \<Rightarrow> timers" where
  "setInterval period t = t\<lparr>next_id := Suc (next_id t), active := active t @ [(next_id t, period)]\<rparr>"

definition clearInterval :: "nat \<Rightarrow> timers \<Rightarrow> timers" where
  "clearInterval h t = t\<lparr>active := filter (\<lambda>(i, p). i \<noteq> h) (active t)\<rparr>"

text \<open>What a pass does to its collaborators, in the order of the calls.\<close>

datatype event =
    Balances "string option" "string list"
  | Warn string js_error
  | AddToken string string nat

datatype outcome = Resolved | Rejected js_error

text \<open>
  An \<^verbatim>\<open>async\<close> function runs up to its first \<^verbatim>\<open>await\<close> when it is called: a pass
  has then either settled, or it awaits the balances of the candidates it asked for.
\<close>

datatype progress = Settled outcome | Awaiting "string list"

section \<open>The controller\<close>

text \<open>\<^verbatim>\<open>get isActive\<close>: \<^verbatim>\<open>this.isOpen && this.isUnlocked\<close>, read for its truthiness.\<close>

definition isActive :: "detector \<Rightarrow> bool" where
  "isActive s = (isOpen s = Some True \<and> isUnlocked s = Some True)"

text \<open>Truthiness of an optional string: \<^verbatim>\<open>undefined\<close> and the empty string are falsy.\<close>

fun truthy :: "string option \<Rightarrow> bool" where
  "truthy None = False"
| "truthy (Some s) = (s \<noteq> [])"

text \<open>
  \<^verbatim>\<open>set interval\<close> (lines 144 to 152). An interval is a number of milliseconds, falsy
  when it is 0. The early return leaves \<^verbatim>\<open>_handle\<close> as it was.
\<close>

definition set_interval :: "int \<Rightarrow> detector \<times> timers \<Rightarrow> detector \<times> timers" where
  "set_interval interval st =
     (case st of (s, t) \<Rightarrow>
        let t1 = (case handle s of None \<Rightarrow> t | Some h \<Rightarrow> clearInterval h t)
        in if interval = 0 then (s, t1)
           else (s\<lparr>handle := Some (next_id t1)\<rparr>, setInterval interval t1))"

text \<open>\<^verbatim>\<open>set network\<close> (lines 157 to 163).\<close>

definition set_network :: "network_controller option \<Rightarrow> detector \<Rightarrow> detector" where
  "set_network n s =
     (case n of None \<Rightarrow> s | Some nw \<Rightarrow> s\<lparr>network := Some nw, web3 := Some (provider nw)\<rparr>)"

text \<open>\<^verbatim>\<open>set keyringMemStore\<close> (lines 169 to 182); its callback is \<open>on_keyring\<close> below.\<close>

definition set_keyringMemStore :: "keyring_store option \<Rightarrow> detector \<Rightarrow> detector" where
  "set_keyringMemStore k s =
     (case k of None \<Rightarrow> s
      | Some ks \<Rightarrow> s\<lparr>keyringMemStore := Some ks, subscriptions := subscriptions s @ [KeyringFeed]\<rparr>)"

text \<open>
  The loop of lines 68 to 80 over the keys of \<^verbatim>\<open>contracts\<close>. The conjunction is
  evaluated left to right: \<^verbatim>\<open>this.tokenAddresses.find\<close> is reached only for a fungible
  entry and \<^verbatim>\<open>this.hiddenTokens.find\<close> only for one that is not tracked, and either
  raises a TypeError when the list is \<^verbatim>\<open>undefined\<close>. \<^verbatim>\<open>find\<close> returns the element
  found, negated for its truthiness: a tracked address that is found is falsy only
  when it is the empty string; an element of the ignored list that is found is an
  object or a string, the latter never found here since its \<^verbatim>\<open>address\<close> is no string.
\<close>

fun tokensToDetect :: "contracts \<Rightarrow> string list option \<Rightarrow> hidden_token list option \<Rightarrow>
    string list \<Rightarrow> js_error + string list" where
  "tokensToDetect cs tas hts [] = Inr []"
| "tokensToDetect cs tas hts (contractAddress # ks) =
     (case map_of cs contractAddress of
        None \<Rightarrow> Inl TypeError
      | Some c \<Rightarrow>
          if \<not> erc20 c then tokensToDetect cs tas hts ks
          else (case tas of
            None \<Rightarrow> Inl TypeError
          | Some tokenAddresses' \<Rightarrow>
              if truthy (find (\<lambda>tokenAddress.
                     isEqualCaseInsensitive (Some tokenAddress) (Some contractAddress)) tokenAddresses')
              then tokensToDetect cs tas hts ks
              else (case hts of
                None \<Rightarrow> Inl TypeError
              | Some hiddenTokens' \<Rightarrow>
                  if find (\<lambda>token.
                       isEqualCaseInsensitive (address_property token) (Some contractAddress))
                       hiddenTokens' \<noteq> None
                  then tokensToDetect cs tas hts ks
                  else (case tokensToDetect cs tas hts ks of
                          Inl e \<Rightarrow> Inl e
                        | Inr rest \<Rightarrow> Inr (contractAddress # rest)))))"

text \<open>
  \<^verbatim>\<open>detectNewTokens\<close> up to its first \<^verbatim>\<open>await\<close> (lines 59 to 84): the two gates, the
  rebinding of the provider, the candidates, and the call of the balance contract
  that \<^verbatim>\<open>_getTokenBalances\<close> issues for \<^verbatim>\<open>[this.selectedAddress]\<close> and the candidates.
  An exception inside the \<^verbatim>\<open>async\<close> function rejects its promise.
\<close>

definition detectNewTokens_begin :: "contracts \<Rightarrow> detector \<Rightarrow> progress \<times> detector \<times> event list" where
  "detectNewTokens_begin cs s =
     (if \<not> isActive s then (Settled Resolved, s, [])
      else case network s of
        None \<Rightarrow> (Settled (Rejected TypeError), s, [])
      | Some nw \<Rightarrow>
          if chainId nw \<noteq> MAINNET_CHAIN_ID then (Settled Resolved, s, [])
          else (case web3 s of
            None \<Rightarrow> (Settled (Rejected TypeError), s, [])
          | Some w \<Rightarrow>
              let s1 = s\<lparr>web3 := Some (provider nw)\<rparr> in
              (case tokensToDetect cs (tokenAddresses s1) (hiddenTokens s1) (map fst cs) of
                 Inl e \<Rightarrow> (Settled (Rejected e), s1, [])
               | Inr candidates \<Rightarrow>
                   (Awaiting candidates, s1, [Balances (selectedAddress s1) candidates]))))"

text \<open>\<^verbatim>\<open>result[index]\<close>: \<^verbatim>\<open>undefined\<close> past the end of the array and at a hole.\<close>

definition js_index :: "'a option list \<Rightarrow> nat \<Rightarrow> 'a option" where
  "js_index xs i = (if i < length xs then xs ! i else None)"

text \<open>\<^verbatim>\<open>balance && !balance.isZero()\<close> for a balance of the contract's unsigned type.\<close>

fun has_balance :: "nat option \<Rightarrow> bool" where
  "has_balance None = False"
| "has_balance (Some b) = (b \<noteq> 0)"

text \<open>
  One callback of the \<^verbatim>\<open>map\<close> of lines 94 to 109, up to its \<^verbatim>\<open>await\<close>: the events
  it causes and how its promise settles. \<open>rejects\<close> says for which addresses the
  registry's \<^verbatim>\<open>addToken\<close> fails.
\<close>

definition register_token :: "contracts \<Rightarrow> (string \<Rightarrow> bool) \<Rightarrow> detector \<Rightarrow> nat option list \<Rightarrow>
    string \<Rightarrow> nat \<Rightarrow> outcome \<times> event list" where
  "register_token cs rejects s result tokenAddress index =
     (let balance = js_index result index in
      case hiddenTokens s of
        None \<Rightarrow> (Rejected TypeError, [])
      | Some hiddenTokens' \<Rightarrow>
          let ignored =
                (if length hiddenTokens' \<noteq> 0
                 then find (\<lambda>ignoredTokenAddress.
                        isEqualCaseInsensitive (string_value ignoredTokenAddress) (Some tokenAddress))
                        hiddenTokens'
                 else None)
          in if has_balance balance \<and> ignored = None
             then (case tokensController s of
                     None \<Rightarrow> (Rejected TypeError, [])
                   | Some tc \<Rightarrow>
                       (case map_of cs tokenAddress of
                          None \<Rightarrow> (Rejected TypeError, [])
                        | Some c \<Rightarrow>
                            (if rejects tokenAddress then Rejected RegistrationError else Resolved,
                             [AddToken tokenAddress (symbol c) (decimals c)])))
             else (Resolved, []))"

fun register_tokens :: "contracts \<Rightarrow> (string \<Rightarrow> bool) \<Rightarrow> detector \<Rightarrow> nat option list \<Rightarrow>
    nat \<Rightarrow> string list \<Rightarrow> (outcome \<times> event list) list" where
  "register_tokens cs rejects s result index [] = []"
| "register_tokens cs rejects s result index (tokenAddress # rest) =
     register_token cs rejects s result tokenAddress index
       # register_tokens cs rejects s result (Suc index) rest"

text \<open>
  \<^verbatim>\<open>Promise.all\<close> over the callbacks' promises: it rejects with the rejection that
  comes first. A TypeError is raised while \<^verbatim>\<open>map\<close> still runs, a registration fails
  later.
\<close>

definition promise_all :: "outcome list \<Rightarrow> outcome" where
  "promise_all outs =
     (if Rejected TypeError \<in> set outs then Rejected TypeError
      else if Rejected RegistrationError \<in> set outs then Rejected RegistrationError
      else Resolved)"

definition fetch_failed_message :: string where
  "fetch_failed_message = ''MetaMask - DetectTokensController single call balance fetch failed''"

text \<open>
  \<^verbatim>\<open>detectNewTokens\<close> from the settling of the balance call (lines 85 to 110), on the
  state the controller has by then.
\<close>

definition detectNewTokens_resume :: "contracts \<Rightarrow> (string \<Rightarrow> bool) \<Rightarrow> detector \<Rightarrow> string list \<Rightarrow>
    js_error + nat option list \<Rightarrow> outcome \<times> event list" where
  "detectNewTokens_resume cs rejects s candidates reply =
     (case reply of
        Inl error \<Rightarrow> (Resolved, [Warn fetch_failed_message error])
      | Inr result \<Rightarrow>
          (let rs = register_tokens cs rejects s result 0 candidates
           in (promise_all (map fst rs), concat (map snd rs))))"

text \<open>
  The balance contract and the registry as the pass meets them: the reply to a
  \<^verbatim>\<open>balances\<close> call, and the addresses whose registration fails.
\<close>

record environment =
  balances_reply :: "string option \<Rightarrow> string list \<Rightarrow> js_error + nat option list"
  addToken_rejects :: "string \<Rightarrow> bool"

text \<open>
  A whole pass. \<open>during\<close> is what the subscriptions do to the controller's state while
  the balance call is awaited.
\<close>

definition detectNewTokens :: "contracts \<Rightarrow> environment \<Rightarrow> (detector \<Rightarrow> detector) \<Rightarrow> detector \<Rightarrow>
    outcome \<times> detector \<times> event list" where
  "detectNewTokens cs orc during s =
     (case detectNewTokens_begin cs s of
        (Settled out, s1, evs) \<Rightarrow> (out, s1, evs)
      | (Awaiting candidates, s1, evs) \<Rightarrow>
          (let s2 = during s1;
               r = detectNewTokens_resume cs (addToken_rejects orc) s2 candidates
                     (balances_reply orc (selectedAddress s1) candidates)
           in (fst r, s2, evs @ snd r)))"

text \<open>
  \<^verbatim>\<open>restartTokenDetection\<close> (lines 132 to 138). The pass it starts is not awaited: it
  runs up to its first \<^verbatim>\<open>await\<close>, then the interval is set. The result holds the new
  state and timers, the events so far, and the pass started, if any.
\<close>

definition restartTokenDetection :: "contracts \<Rightarrow> detector \<times> timers \<Rightarrow>
    (detector \<times> timers) \<times> event list \<times> progress option" where
  "restartTokenDetection cs st =
     (case st of (s, t) \<Rightarrow>
        if \<not> (isActive s \<and> truthy (selectedAddress s)) then ((s, t), [], None)
        else (case detectNewTokens_begin cs s of
                (p, s1, evs) \<Rightarrow> (set_interval DEFAULT_INTERVAL (s1, t), evs, Some p)))"

text \<open>The callbacks of the three subscriptions (lines 41 to 46, 47 to 52, 174 to 181).\<close>

definition on_preferences :: "contracts \<Rightarrow> string option \<Rightarrow> detector \<times> timers \<Rightarrow>
    (detector \<times> timers) \<times> event list \<times> progress option" where
  "on_preferences cs selectedAddress' st =
     (case st of (s, t) \<Rightarrow>
        if selectedAddress s \<noteq> selectedAddress'
        then restartTokenDetection cs (s\<lparr>selectedAddress := selectedAddress'\<rparr>, t)
        else ((s, t), [], None))"

definition on_tokens :: "token list option \<Rightarrow> hidden_token list option \<Rightarrow> detector \<Rightarrow> detector" where
  "on_tokens tokens' ignoredTokens' s =
     s\<lparr>tokenAddresses := Some (map address (case tokens' of None \<Rightarrow> [] | Some ts \<Rightarrow> ts)),
       hiddenTokens := Some (case ignoredTokens' of None \<Rightarrow> [] | Some hs \<Rightarrow> hs)\<rparr>"

definition on_keyring :: "contracts \<Rightarrow> bool option \<Rightarrow> detector \<times> timers \<Rightarrow>
    (detector \<times> timers) \<times> event list \<times> progress option" where
  "on_keyring cs isUnlocked' st =
     (case st of (s, t) \<Rightarrow>
        if isUnlocked s \<noteq> isUnlocked'
        then (if isUnlocked' = Some True
              then restartTokenDetection cs (s\<lparr>isUnlocked := isUnlocked'\<rparr>, t)
              else ((s\<lparr>isUnlocked := isUnlocked'\<rparr>, t), [], None))
        else ((s, t), [], None))"

text \<open>The object before the constructor's first assignment: every field \<^verbatim>\<open>undefined\<close>.\<close>

definition blank :: detector where
  "blank = \<lparr>tokensController = None, preferences = None, network = None, web3 = None,
     keyringMemStore = None, selectedAddress = None, tokenAddresses = None,
     hiddenTokens = None, isOpen = None, isUnlocked = None, handle = None,
     subscriptions = []\<rparr>"

text \<open>
  The constructor (lines 23 to 53), in the order of its statements; \<^verbatim>\<open>?.\<close> yields
  \<^verbatim>\<open>undefined\<close> for an absent collaborator and skips the call after it.
\<close>

definition constructor :: "config \<Rightarrow> timers \<Rightarrow> detector \<times> timers" where
  "constructor cfg t =
     (let s1 = blank\<lparr>tokensController := cfg_tokensController cfg, preferences := cfg_preferences cfg\<rparr>;
          st2 = set_interval (case cfg_interval cfg of None \<Rightarrow> DEFAULT_INTERVAL | Some i \<Rightarrow> i) (s1, t);
          s3 = set_network (cfg_network cfg) (fst st2);
          s4 = set_keyringMemStore (cfg_keyringMemStore cfg) s3;
          s5 = s4\<lparr>selectedAddress :=
                    (case preferences s4 of None \<Rightarrow> None | Some p \<Rightarrow> pref_selectedAddress p),
                  tokenAddresses :=
                    (case tokensController s4 of None \<Rightarrow> None | Some tc \<Rightarrow> Some (map address (tokens tc))),
                  hiddenTokens :=
                    (case tokensController s4 of None \<Rightarrow> None | Some tc \<Rightarrow> Some (ignoredTokens tc))\<rparr>;
          s6 = (case cfg_preferences cfg of None \<Rightarrow> s5
                | Some p \<Rightarrow> s5\<lparr>subscriptions := subscriptions s5 @ [PreferencesFeed]\<rparr>);
          s7 = (case cfg_tokensController cfg of None \<Rightarrow> s6
                | Some tc \<Rightarrow> s6\<lparr>subscriptions := subscriptions s6 @ [TokensFeed]\<rparr>)
      in (s7, snd st2))"

text \<open>
  The controller owns its timers: at most one is active, it is the one \<^verbatim>\<open>_handle\<close>
  names, and \<^verbatim>\<open>_handle\<close>, when set, is an identifier the host has handed out.
\<close>

definition owned :: "detector \<times> timers \<Rightarrow> bool" where
  "owned st =
     (case st of (s, t) \<Rightarrow>
        length (active t) \<le> 1 \<and>
        list_all (\<lambda>hp. handle s = Some (fst hp)) (active t) \<and>
        list_all (\<lambda>h. h < next_id t) (case handle s of None \<Rightarrow> [] | Some h \<Rightarrow> [h]))"

section \<open>The controller in its host\<close>

text \<open>
  Everything that runs code of the controller once it is constructed: a timer firing, a
  call of one of the two methods, a notification of one of the feeds, an assignment to
  one of the three setters, and the settling of the balance call of a pass that awaits
  it (the passes awaiting are numbered from the oldest).
\<close>

datatype action =
    TimerFires
  | CallDetectNewTokens
  | CallRestartTokenDetection
  | PreferencesUpdate "string option"
  | TokensUpdate "token list option" "hidden_token list option"
  | KeyringUpdate "bool option"
  | SetInterval int
  | SetNetwork "network_controller option"
  | SetKeyringMemStore "keyring_store option"
  | BalancesSettled nat "js_error + nat option list"

record system =
  det :: detector
  tmr :: timers
  log :: "event list"
  awaiting :: "string list list"

definition started :: "(detector \<times> timers) \<times> event list \<times> progress option \<Rightarrow> system \<Rightarrow> system" where
  "started r sys =
     sys\<lparr>det := fst (fst r), tmr := snd (fst r), log := log sys @ fst (snd r),
         awaiting := awaiting sys @
           (case snd (snd r) of Some (Awaiting candidates) \<Rightarrow> [candidates] | _ \<Rightarrow> [])\<rparr>"

definition call_detectNewTokens :: "contracts \<Rightarrow> system \<Rightarrow> system" where
  "call_detectNewTokens cs sys =
     (case detectNewTokens_begin cs (det sys) of
        (p, s1, evs) \<Rightarrow> started ((s1, tmr sys), evs, Some p) sys)"

fun step :: "contracts \<Rightarrow> (string \<Rightarrow> bool) \<Rightarrow> system \<Rightarrow> action \<Rightarrow> system" where
  "step cs rejects sys TimerFires =
     (if active (tmr sys) = [] then sys else call_detectNewTokens cs sys)"
| "step cs rejects sys CallDetectNewTokens = call_detectNewTokens cs sys"
| "step cs rejects sys CallRestartTokenDetection =
     started (restartTokenDetection cs (det sys, tmr sys)) sys"
| "step cs rejects sys (PreferencesUpdate selectedAddress') =
     (if PreferencesFeed \<in> set (subscriptions (det sys))
      then started (on_preferences cs selectedAddress' (det sys, tmr sys)) sys else sys)"
| "step cs rejects sys (TokensUpdate tokens' ignoredTokens') =
     (if TokensFeed \<in> set (subscriptions (det sys))
      then sys\<lparr>det := on_tokens tokens' ignoredTokens' (det sys)\<rparr> else sys)"
| "step cs rejects sys (KeyringUpdate isUnlocked') =
     (if KeyringFeed \<in> set (subscriptions (det sys))
      then started (on_keyring cs isUnlocked' (det sys, tmr sys)) sys else sys)"
| "step cs rejects sys (SetInterval interval) =
     (let st = set_interval interval (det sys, tmr sys) in sys\<lparr>det := fst st, tmr := snd st\<rparr>)"
| "step cs rejects sys (SetNetwork n) = sys\<lparr>det := set_network n (det sys)\<rparr>"
| "step cs rejects sys (SetKeyringMemStore k) = sys\<lparr>det := set_keyringMemStore k (det sys)\<rparr>"
| "step cs rejects sys (BalancesSettled n reply) =
     (if n < length (awaiting sys)
      then sys\<lparr>log := log sys @ snd (detectNewTokens_resume cs rejects (det sys) (awaiting sys ! n) reply),
               awaiting := take n (awaiting sys) @ drop (Suc n) (awaiting sys)\<rparr>
      else sys)"

definition run :: "contracts \<Rightarrow> (string \<Rightarrow> bool) \<Rightarrow> system \<Rightarrow> action list \<Rightarrow> system" where
  "run cs rejects sys acts = foldl (step cs rejects) sys acts"

text \<open>The system right after \<^verbatim>\<open>new DetectTokensController(config)\<close>.\<close>

definition constructed :: "config \<Rightarrow> timers \<Rightarrow> system" where
  "constructed cfg t =
     (let st = constructor cfg t in \<lparr>det = fst st, tmr = snd st, log = [], awaiting = []\<rparr>)"

text \<open>
  What the host does to the controller: it runs code of the controller, or it assigns
  one of the two flags (\<^verbatim>\<open>isOpen\<close> is set by the host only).
\<close>

datatype host_action =
    Runs action
  | SetsIsOpen "bool option"
  | SetsIsUnlocked "bool option"

fun host_step :: "contracts \<Rightarrow> (string \<Rightarrow> bool) \<Rightarrow> system \<Rightarrow> host_action \<Rightarrow> system" where
  "host_step cs rejects sys (Runs a) = step cs rejects sys a"
| "host_step cs rejects sys (SetsIsOpen v) = sys\<lparr>det := (det sys)\<lparr>isOpen := v\<rparr>\<rparr>"
| "host_step cs rejects sys (SetsIsUnlocked v) = sys\<lparr>det := (det sys)\<lparr>isUnlocked := v\<rparr>\<rparr>"

definition host_run :: "contracts \<Rightarrow> (string \<Rightarrow> bool) \<Rightarrow> system \<Rightarrow> host_action list \<Rightarrow> system" where
  "host_run cs rejects sys acts = foldl (host_step cs rejects) sys acts"

section \<open>Concrete inputs\<close>

text \<open>
  The registry of the spec's scenarios: one fungible token \<open>X\<close> with 18 decimals, here
  under an address with an upper-case letter; a second registry adds a token \<open>Y\<close>.
\<close>

definition token_X :: contract where
  "token_X = \<lparr>erc20 = True, symbol = ''X'', decimals = 18\<rparr>"

definition token_Y :: contract where
  "token_Y = \<lparr>erc20 = True, symbol = ''Y'', decimals = 6\<rparr>"

definition registry_A :: contracts where
  "registry_A = [(''0xAb'', token_X)]"

definition registry_AB :: contracts where
  "registry_AB = [(''0xAb'', token_X), (''0xCd'', token_Y)]"

definition mainnet :: network_controller where
  "mainnet = \<lparr>chainId = MAINNET_CHAIN_ID, provider = 7\<rparr>"

text \<open>
  A controller with all collaborators, on mainnet, open and unlocked, that tracks and
  ignores nothing.
\<close>

definition active_detector :: detector where
  "active_detector =
     \<lparr>tokensController = Some \<lparr>tokens = [], ignoredTokens = []\<rparr>,
      preferences = Some \<lparr>pref_selectedAddress = Some ''0xme''\<rparr>,
      network = Some mainnet, web3 = Some 7, keyringMemStore = Some KeyringMemStore,
      selectedAddress = Some ''0xme'', tokenAddresses = Some [], hiddenTokens = Some [],
      isOpen = Some True, isUnlocked = Some True, handle = Some 1,
      subscriptions = [KeyringFeed, PreferencesFeed, TokensFeed]\<rparr>"

definition one_timer :: timers where
  "one_timer = \<lparr>next_id = 2, active = [(1, DEFAULT_INTERVAL)]\<rparr>"

definition no_timers :: timers where
  "no_timers = \<lparr>next_id = 1, active = []\<rparr>"

text \<open>A balance contract that answers every call with \<open>result\<close>, and one that fails.\<close>

definition paying :: "nat option list \<Rightarrow> environment" where
  "paying result = \<lparr>balances_reply = (\<lambda>owner tokens. Inr result), addToken_rejects = (\<lambda>a. False)\<rparr>"

definition failing :: "js_error \<Rightarrow> environment" where
  "failing e = \<lparr>balances_reply = (\<lambda>owner tokens. Inl e), addToken_rejects = (\<lambda>a. False)\<rparr>"

definition full :: config where
  "full = \<lparr>cfg_interval = Some 1000,
     cfg_preferences = Some \<lparr>pref_selectedAddress = Some ''0xme''\<rparr>,
     cfg_network = Some mainnet, cfg_keyringMemStore = Some KeyringMemStore,
     cfg_tokensController = Some \<lparr>tokens = [], ignoredTokens = []\<rparr>\<rparr>"

definition bare :: config where
  "bare = \<lparr>cfg_interval = None, cfg_preferences = None, cfg_network = None,
     cfg_keyringMemStore = None, cfg_tokensController = None\<rparr>"

section \<open>Lemmas on a detection pass\<close>

lemma register_token_events:
  assumes "hiddenTokens s = Some hts" and "tokensController s = Some tc"
  shows "snd (register_token cs rejects s result a i) =
           (if has_balance (js_index result i) \<and>
               \<not> (\<exists>g. HiddenAddress g \<in> set hts \<and> toLowerCase g = toLowerCase a)
            then (case map_of cs a of None \<Rightarrow> [] | Some c \<Rightarrow> [AddToken a (symbol c) (decimals c)])
            else [])"
proof -
  have eq: "(find (\<lambda>h. isEqualCaseInsensitive (string_value h) (Some a)) hts = None) =
            (\<not> (\<exists>g. HiddenAddress g \<in> set hts \<and> toLowerCase g = toLowerCase a))"
  proof -
    have "\<And>h. isEqualCaseInsensitive (string_value h) (Some a) =
               (\<exists>g. h = HiddenAddress g \<and> toLowerCase g = toLowerCase a)"
      by (case_tac h) auto
    then show ?thesis by (auto simp: find_None_iff)
  qed
  have nil: "hts = [] \<Longrightarrow> \<not> (\<exists>g. HiddenAddress g \<in> set hts \<and> toLowerCase g = toLowerCase a)"
    by simp
  show ?thesis
    using assms eq nil
    by (auto simp: register_token_def Let_def split: option.splits)
qed

lemma register_tokens_nth:
  "register_tokens cs rejects s result n cands =
     map (\<lambda>i. register_token cs rejects s result (cands ! i) (n + i)) [0..<length cands]"
proof (induction cands arbitrary: n)
  case Nil
  then show ?case by simp
next
  case (Cons a cands)
  have "[0..<length (a # cands)] = 0 # map Suc [0..<length cands]"
    by (simp add: upt_conv_Cons map_Suc_upt del: upt_Suc)
  then show ?case
    by (simp add: Cons.IH comp_def del: upt_Suc)
qed

lemma tokensToDetect_keys:
  "tokensToDetect cs tas hts ks = Inr cands \<Longrightarrow> a \<in> set cands \<Longrightarrow>
     a \<in> set ks \<and> (\<exists>c. map_of cs a = Some c \<and> erc20 c)"
proof (induction ks arbitrary: cands)
  case Nil
  then show ?case by simp
next
  case (Cons k ks)
  then show ?case
    by (auto split: option.splits if_splits sum.splits)
qed

lemma detectNewTokens_begin_gated:
  assumes "\<not> isActive s \<or> (\<exists>nw. network s = Some nw \<and> chainId nw \<noteq> MAINNET_CHAIN_ID)"
  shows "detectNewTokens_begin cs s = (Settled Resolved, s, [])"
  using assms by (auto simp: detectNewTokens_begin_def)

lemma detectNewTokens_begin_open:
  assumes "isActive s" and "network s = Some nw" and "chainId nw = MAINNET_CHAIN_ID"
    and "web3 s = Some w"
    and "tokensToDetect cs (tokenAddresses s) (hiddenTokens s) (map fst cs) = Inr candidates"
  shows "detectNewTokens_begin cs s =
           (Awaiting candidates, s\<lparr>web3 := Some (provider nw)\<rparr>,
            [Balances (selectedAddress s) candidates])"
  using assms by (simp add: detectNewTokens_begin_def)

lemma resume_events:
  assumes "hiddenTokens s = Some hts" and "tokensController s = Some tc"
  shows "snd (detectNewTokens_resume cs rejects s candidates (Inr result)) =
           concat (map (\<lambda>i.
             if has_balance (js_index result i) \<and>
                \<not> (\<exists>g. HiddenAddress g \<in> set hts \<and> toLowerCase g = toLowerCase (candidates ! i))
             then (case map_of cs (candidates ! i) of
                     None \<Rightarrow> []
                   | Some c \<Rightarrow> [AddToken (candidates ! i) (symbol c) (decimals c)])
             else []) [0..<length candidates])"
  by (simp add: detectNewTokens_resume_def register_tokens_nth comp_def
      register_token_events [OF assms])

lemma has_balance_iff:
  "has_balance (js_index result i) = (\<exists>b. i < length result \<and> result ! i = Some b \<and> 0 < b)"
  by (cases "js_index result i") (auto simp: js_index_def split: if_splits)

lemma tokensToDetect_distinct:
  "tokensToDetect cs tas hts ks = Inr cands \<Longrightarrow> distinct ks \<Longrightarrow> distinct cands"
proof (induction ks arbitrary: cands)
  case Nil
  then show ?case by simp
next
  case (Cons k ks)
  then show ?case
    by (auto split: option.splits if_splits sum.splits dest: tokensToDetect_keys)
qed

section \<open>Lemmas on the candidates\<close>

lemma toLowerCase_Nil: "toLowerCase x = toLowerCase a \<Longrightarrow> (x = []) = (a = [])"
proof -
  assume "toLowerCase x = toLowerCase a"
  then have "length (toLowerCase x) = length (toLowerCase a)" by simp
  then have "length x = length a" by (simp add: toLowerCase_def)
  then show ?thesis by auto
qed

lemma find_holds: "find P xs = Some x \<Longrightarrow> P x"
  by (induction xs) (auto split: if_splits)

lemma tracked_found:
  assumes "t \<in> set tas" and "toLowerCase t = toLowerCase a" and "a \<noteq> []"
  shows "truthy (find (\<lambda>tokenAddress. isEqualCaseInsensitive (Some tokenAddress) (Some a)) tas)"
proof -
  from assms(1,2) obtain x where
    x: "find (\<lambda>tokenAddress. isEqualCaseInsensitive (Some tokenAddress) (Some a)) tas = Some x"
    by (cases "find (\<lambda>tokenAddress. isEqualCaseInsensitive (Some tokenAddress) (Some a)) tas")
       (auto simp: find_None_iff)
  then have "toLowerCase x = toLowerCase a"
    using find_holds by fastforce
  with assms(3) have "x \<noteq> []"
    using toLowerCase_Nil [of x a] by simp
  with x show ?thesis by simp
qed

lemma tracked_not_found:
  assumes "\<not> (\<exists>t \<in> set tas. toLowerCase t = toLowerCase a)"
  shows "\<not> truthy (find (\<lambda>tokenAddress. isEqualCaseInsensitive (Some tokenAddress) (Some a)) tas)"
proof -
  from assms have "find (\<lambda>tokenAddress. isEqualCaseInsensitive (Some tokenAddress) (Some a)) tas = None"
    by (auto simp: find_None_iff)
  then show ?thesis by simp
qed

lemma hidden_found:
  "(find (\<lambda>token. isEqualCaseInsensitive (address_property token) (Some a)) hts = None) =
   (\<not> (\<exists>g. HiddenObject (Some g) \<in> set hts \<and> toLowerCase g = toLowerCase a))"
proof -
  have "\<And>h. isEqualCaseInsensitive (address_property h) (Some a) =
             (\<exists>g. h = HiddenObject (Some g) \<and> toLowerCase g = toLowerCase a)"
  proof -
    fix h show "isEqualCaseInsensitive (address_property h) (Some a) =
             (\<exists>g. h = HiddenObject (Some g) \<and> toLowerCase g = toLowerCase a)"
    proof (cases h)
      case (HiddenAddress s)
      then show ?thesis by simp
    next
      case (HiddenObject x)
      then show ?thesis by (cases x) auto
    qed
  qed
  then show ?thesis by (auto simp: find_None_iff)
qed

lemma tokensToDetect_filter:
  assumes "set ks \<subseteq> fst ` set cs" and "[] \<notin> set ks"
  shows "tokensToDetect cs (Some tas) (Some hts) ks =
           Inr (filter (\<lambda>k. (\<exists>c. map_of cs k = Some c \<and> erc20 c) \<and>
                  \<not> (\<exists>t \<in> set tas. toLowerCase t = toLowerCase k) \<and>
                  \<not> (\<exists>g. HiddenObject (Some g) \<in> set hts \<and> toLowerCase g = toLowerCase k)) ks)"
  using assms
proof (induction ks)
  case Nil
  then show ?case by simp
next
  case (Cons k ks)
  from Cons.prems obtain c where c: "map_of cs k = Some c"
    by (cases "map_of cs k") (auto simp: map_of_eq_None_iff)
  have k: "k \<noteq> []" using Cons.prems by auto
  have IH: "tokensToDetect cs (Some tas) (Some hts) ks =
           Inr (filter (\<lambda>k. (\<exists>c. map_of cs k = Some c \<and> erc20 c) \<and>
                  \<not> (\<exists>t \<in> set tas. toLowerCase t = toLowerCase k) \<and>
                  \<not> (\<exists>g. HiddenObject (Some g) \<in> set hts \<and> toLowerCase g = toLowerCase k)) ks)"
    using Cons by simp
  let ?R = "tokensToDetect cs (Some tas) (Some hts) ks"
  let ?tr = "truthy (find (\<lambda>tokenAddress.
                     isEqualCaseInsensitive (Some tokenAddress) (Some k)) tas)"
  have tr: "?tr = (\<exists>t \<in> set tas. toLowerCase t = toLowerCase k)"
    using tracked_found [of _ tas k] tracked_not_found [of tas k] k by blast
  have step: "tokensToDetect cs (Some tas) (Some hts) (k # ks) =
      (if \<not> erc20 c then ?R
       else if ?tr then ?R
       else if (\<exists>g. HiddenObject (Some g) \<in> set hts \<and> toLowerCase g = toLowerCase k) then ?R
       else (case ?R of Inl e \<Rightarrow> Inl e | Inr rest \<Rightarrow> Inr (k # rest)))"
    using c by (simp add: hidden_found del: isEqualCaseInsensitive.simps not_None_eq)
  let ?trk = "\<exists>t \<in> set tas. toLowerCase t = toLowerCase k"
  let ?hid = "\<exists>g. HiddenObject (Some g) \<in> set hts \<and> toLowerCase g = toLowerCase k"
  show ?case
  proof (cases "erc20 c \<and> \<not> ?trk \<and> \<not> ?hid")
    case True
    then have "tokensToDetect cs (Some tas) (Some hts) (k # ks) =
        (case ?R of Inl e \<Rightarrow> Inl e | Inr rest \<Rightarrow> Inr (k # rest))"
      unfolding step tr by auto
    with True c show ?thesis
      unfolding IH by auto
  next
    case False
    then have "tokensToDetect cs (Some tas) (Some hts) (k # ks) = ?R"
      unfolding step tr by auto
    with False c show ?thesis
      unfolding IH by auto
  qed
qed

lemma tracked_address_excluded:
  assumes "tokensToDetect cs (Some tas) hts ks = Inr cands"
    and "t \<in> set tas" and "toLowerCase t = toLowerCase a" and "a \<noteq> []"
  shows "a \<notin> set cands"
  using assms(1)
proof (induction ks arbitrary: cands)
  case Nil
  then show ?case by simp
next
  case (Cons k ks)
  note found = tracked_found [OF assms(2,3,4)]
  show ?case
  proof (cases "k = a")
    case True
    with Cons.prems found have "tokensToDetect cs (Some tas) hts ks = Inr cands"
      by (auto split: option.splits if_splits simp del: isEqualCaseInsensitive.simps)
    then show ?thesis by (rule Cons.IH)
  next
    case False
    with Cons show ?thesis
      by (auto split: option.splits if_splits sum.splits simp del: isEqualCaseInsensitive.simps)
  qed
qed

lemma ignored_object_excluded:
  assumes "tokensToDetect cs tas (Some hts) ks = Inr cands"
    and "HiddenObject (Some g) \<in> set hts" and "toLowerCase g = toLowerCase a"
  shows "a \<notin> set cands"
  using assms(1)
proof (induction ks arbitrary: cands)
  case Nil
  then show ?case by simp
next
  case (Cons k ks)
  have found: "find (\<lambda>token. isEqualCaseInsensitive (address_property token) (Some a)) hts \<noteq> None"
    using assms(2,3) hidden_found [of a hts] by blast
  show ?case
  proof (cases "k = a")
    case True
    with Cons.prems found have "tokensToDetect cs tas (Some hts) ks = Inr cands"
      by (auto split: option.splits if_splits simp del: isEqualCaseInsensitive.simps)
    then show ?thesis by (rule Cons.IH)
  next
    case False
    with Cons show ?thesis
      by (auto split: option.splits if_splits sum.splits simp del: isEqualCaseInsensitive.simps)
  qed
qed

section \<open>Lemmas on timers, the host and the constructor\<close>

lemma set_interval_owned:
  assumes "owned (s, t)"
  shows "owned (set_interval i (s, t))"
    and "active (snd (set_interval i (s, t))) = (if i = 0 then [] else [(next_id t, i)])"
    and "handle (fst (set_interval i (s, t))) = (if i = 0 then handle s else Some (next_id t))"
    and "next_id (snd (set_interval i (s, t))) = (if i = 0 then next_id t else Suc (next_id t))"
proof -
  have cleared: "active (case handle s of None \<Rightarrow> t | Some h \<Rightarrow> clearInterval h t) = []"
  proof (cases "handle s")
    case None
    with assms show ?thesis
      by (cases "active t") (auto simp: owned_def)
  next
    case (Some h)
    with assms have "\<forall>hp \<in> set (active t). fst hp = h"
      by (auto simp: owned_def list_all_iff)
    then have "filter (\<lambda>(i, p). i \<noteq> h) (active t) = []"
      by (auto simp: filter_empty_conv)
    with Some show ?thesis by (simp add: clearInterval_def)
  qed
  have nid: "next_id (case handle s of None \<Rightarrow> t | Some h \<Rightarrow> clearInterval h t) = next_id t"
    by (simp add: clearInterval_def split: option.splits)
  show "active (snd (set_interval i (s, t))) = (if i = 0 then [] else [(next_id t, i)])"
    using cleared nid by (simp add: set_interval_def Let_def setInterval_def)
  show "handle (fst (set_interval i (s, t))) = (if i = 0 then handle s else Some (next_id t))"
    using nid by (simp add: set_interval_def Let_def)
  show "next_id (snd (set_interval i (s, t))) = (if i = 0 then next_id t else Suc (next_id t))"
    using nid by (simp add: set_interval_def Let_def setInterval_def)
  show "owned (set_interval i (s, t))"
    using assms cleared nid
    by (auto simp: owned_def set_interval_def Let_def setInterval_def split: option.splits)
qed

lemma set_interval_keeps:
  "isOpen (fst (set_interval i st)) = isOpen (fst st)"
  "isUnlocked (fst (set_interval i st)) = isUnlocked (fst st)"
  "selectedAddress (fst (set_interval i st)) = selectedAddress (fst st)"
  "subscriptions (fst (set_interval i st)) = subscriptions (fst st)"
  "tokenAddresses (fst (set_interval i st)) = tokenAddresses (fst st)"
  "hiddenTokens (fst (set_interval i st)) = hiddenTokens (fst st)"
  "network (fst (set_interval i st)) = network (fst st)"
  "web3 (fst (set_interval i st)) = web3 (fst st)"
  "tokensController (fst (set_interval i st)) = tokensController (fst st)"
  "preferences (fst (set_interval i st)) = preferences (fst st)"
  "keyringMemStore (fst (set_interval i st)) = keyringMemStore (fst st)"
  by (simp_all add: set_interval_def Let_def split: prod.splits)

lemma begin_handle:
  "handle (fst (snd (detectNewTokens_begin cs s))) = handle s"
  by (simp add: detectNewTokens_begin_def Let_def split: option.splits sum.splits)

lemma begin_isOpen:
  "isOpen (fst (snd (detectNewTokens_begin cs s))) = isOpen s"
  "subscriptions (fst (snd (detectNewTokens_begin cs s))) = subscriptions s"
  by (simp_all add: detectNewTokens_begin_def Let_def split: option.splits sum.splits)

lemma restart_owned:
  assumes "owned (s, t)"
  shows "owned (fst (restartTokenDetection cs (s, t)))"
proof (cases "isActive s \<and> truthy (selectedAddress s)")
  case False
  with assms show ?thesis by (simp add: restartTokenDetection_def)
next
  case True
  obtain p s1 evs where b: "detectNewTokens_begin cs s = (p, s1, evs)"
    by (cases "detectNewTokens_begin cs s")
  have "handle s1 = handle s"
    using begin_handle [of cs s] b by simp
  with assms have "owned (s1, t)"
    by (simp add: owned_def)
  then have "owned (set_interval DEFAULT_INTERVAL (s1, t))"
    by (rule set_interval_owned(1))
  with True b show ?thesis by (simp add: restartTokenDetection_def)
qed

lemma restart_keeps:
  "isOpen (fst (fst (restartTokenDetection cs (s, t)))) = isOpen s"
  "subscriptions (fst (fst (restartTokenDetection cs (s, t)))) = subscriptions s"
proof -
  obtain p s1 evs where b: "detectNewTokens_begin cs s = (p, s1, evs)"
    by (cases "detectNewTokens_begin cs s")
  have k: "isOpen s1 = isOpen s" "subscriptions s1 = subscriptions s"
    using begin_isOpen [of cs s] b by simp_all
  show "isOpen (fst (fst (restartTokenDetection cs (s, t)))) = isOpen s"
    using b k by (simp add: restartTokenDetection_def set_interval_keeps)
  show "subscriptions (fst (fst (restartTokenDetection cs (s, t)))) = subscriptions s"
    using b k by (simp add: restartTokenDetection_def set_interval_keeps)
qed

lemma started_fields:
  "det (started r sys) = fst (fst r)"
  "tmr (started r sys) = snd (fst r)"
  "log (started r sys) = log sys @ fst (snd r)"
  "awaiting (started r sys) = awaiting sys @
     (case snd (snd r) of Some (Awaiting candidates) \<Rightarrow> [candidates] | _ \<Rightarrow> [])"
  by (simp_all add: started_def)

lemma on_preferences_owned:
  assumes "owned (s, t)"
  shows "owned (fst (on_preferences cs a (s, t)))"
proof -
  have "owned (s\<lparr>selectedAddress := a\<rparr>, t)"
    using assms by (simp add: owned_def)
  then have "owned (fst (restartTokenDetection cs (s\<lparr>selectedAddress := a\<rparr>, t)))"
    by (rule restart_owned)
  with assms show ?thesis by (simp add: on_preferences_def)
qed

lemma on_keyring_owned:
  assumes "owned (s, t)"
  shows "owned (fst (on_keyring cs u (s, t)))"
proof -
  have o: "\<And>v. owned (s\<lparr>isUnlocked := v\<rparr>, t)"
    using assms by (simp add: owned_def)
  have "\<And>v. owned (fst (restartTokenDetection cs (s\<lparr>isUnlocked := v\<rparr>, t)))"
    by (rule restart_owned) (rule o)
  with assms o show ?thesis by (simp add: on_keyring_def)
qed

lemma call_detectNewTokens_fields:
  "det (call_detectNewTokens cs sys) = fst (snd (detectNewTokens_begin cs (det sys)))"
  "tmr (call_detectNewTokens cs sys) = tmr sys"
  "log (call_detectNewTokens cs sys) = log sys @ snd (snd (detectNewTokens_begin cs (det sys)))"
  "awaiting (call_detectNewTokens cs sys) = awaiting sys @
     (case fst (detectNewTokens_begin cs (det sys)) of Awaiting candidates \<Rightarrow> [candidates] | _ \<Rightarrow> [])"
  by (simp_all add: call_detectNewTokens_def started_fields split: prod.splits)

lemma step_owned:
  assumes "owned (det sys, tmr sys)"
  shows "owned (det (step cs rejects sys a), tmr (step cs rejects sys a))"
proof (cases a)
  case TimerFires
  have "owned (fst (snd (detectNewTokens_begin cs (det sys))), tmr sys)"
    using assms begin_handle [of cs "det sys"] by (simp add: owned_def)
  with assms TimerFires show ?thesis
    by (simp add: call_detectNewTokens_fields)
next
  case CallDetectNewTokens
  have "owned (fst (snd (detectNewTokens_begin cs (det sys))), tmr sys)"
    using assms begin_handle [of cs "det sys"] by (simp add: owned_def)
  with CallDetectNewTokens show ?thesis
    by (simp add: call_detectNewTokens_fields)
next
  case CallRestartTokenDetection
  with restart_owned [OF assms, of cs] show ?thesis
    by (simp add: started_fields)
next
  case (PreferencesUpdate x)
  with on_preferences_owned [OF assms, of cs x] assms show ?thesis
    by (simp add: started_fields)
next
  case (TokensUpdate x y)
  with assms show ?thesis
    by (simp add: on_tokens_def owned_def)
next
  case (KeyringUpdate x)
  with on_keyring_owned [OF assms, of cs x] assms show ?thesis
    by (simp add: started_fields)
next
  case (SetInterval i)
  with set_interval_owned(1) [OF assms, of i] show ?thesis
    by (simp add: Let_def)
next
  case (SetNetwork n)
  with assms show ?thesis
    by (simp add: set_network_def owned_def split: option.splits)
next
  case (SetKeyringMemStore k)
  with assms show ?thesis
    by (simp add: set_keyringMemStore_def owned_def split: option.splits)
next
  case (BalancesSettled n reply)
  with assms show ?thesis by simp
qed

lemma run_owned:
  "owned (det sys, tmr sys) \<Longrightarrow> owned (det (run cs rejects sys acts), tmr (run cs rejects sys acts))"
  unfolding run_def
  by (induction acts arbitrary: sys) (simp_all add: step_owned)

lemma begin_inactive:
  "\<not> isActive s \<Longrightarrow> detectNewTokens_begin cs s = (Settled Resolved, s, [])"
  by (simp add: detectNewTokens_begin_def)

lemma restart_inactive:
  "\<not> (isActive s \<and> truthy (selectedAddress s)) \<Longrightarrow>
     restartTokenDetection cs (s, t) = ((s, t), [], None)"
  by (simp add: restartTokenDetection_def)

lemma step_idle:
  assumes "isOpen (det sys) = None" and "log sys = []" and "awaiting sys = []"
  shows "isOpen (det (step cs rejects sys a)) = None \<and> log (step cs rejects sys a) = [] \<and>
         awaiting (step cs rejects sys a) = []"
proof -
  have closed: "\<And>s. isOpen s = None \<Longrightarrow> \<not> isActive s"
    by (simp add: isActive_def)
  show ?thesis
  proof (cases a)
    case TimerFires
    with assms closed [OF assms(1)] show ?thesis
      by (simp add: call_detectNewTokens_fields begin_inactive)
  next
    case CallDetectNewTokens
    with assms closed [OF assms(1)] show ?thesis
      by (simp add: call_detectNewTokens_fields begin_inactive)
  next
    case CallRestartTokenDetection
    with assms closed [OF assms(1)] show ?thesis
      by (simp add: started_fields restart_inactive)
  next
    case (PreferencesUpdate x)
    have "\<not> isActive ((det sys)\<lparr>selectedAddress := x\<rparr>)"
      using assms(1) by (simp add: isActive_def)
    with PreferencesUpdate assms show ?thesis
      by (simp add: started_fields on_preferences_def restart_inactive)
  next
    case (TokensUpdate x y)
    with assms show ?thesis by (simp add: on_tokens_def)
  next
    case (KeyringUpdate x)
    have "\<And>v. \<not> isActive ((det sys)\<lparr>isUnlocked := v\<rparr>)"
      using assms(1) by (simp add: isActive_def)
    with KeyringUpdate assms show ?thesis
      by (simp add: started_fields on_keyring_def restart_inactive)
  next
    case (SetInterval i)
    with assms set_interval_keeps(1) [of i "(det sys, tmr sys)"] show ?thesis
      by (simp add: Let_def)
  next
    case (SetNetwork n)
    with assms show ?thesis by (simp add: set_network_def split: option.splits)
  next
    case (SetKeyringMemStore k)
    with assms show ?thesis by (simp add: set_keyringMemStore_def split: option.splits)
  next
    case (BalancesSettled n reply)
    with assms show ?thesis by simp
  qed
qed

lemma run_idle:
  "isOpen (det sys) = None \<and> log sys = [] \<and> awaiting sys = [] \<Longrightarrow>
   isOpen (det (run cs rejects sys acts)) = None \<and> log (run cs rejects sys acts) = [] \<and>
   awaiting (run cs rejects sys acts) = []"
  unfolding run_def
proof (induction acts arbitrary: sys)
  case Nil
  then show ?case by simp
next
  case (Cons a acts)
  from Cons.prems have "isOpen (det (step cs rejects sys a)) = None \<and>
      log (step cs rejects sys a) = [] \<and> awaiting (step cs rejects sys a) = []"
    by (intro step_idle) simp_all
  then show ?case
    using Cons.IH [of "step cs rejects sys a"] by simp
qed

lemma host_step_owned:
  assumes "owned (det sys, tmr sys)"
  shows "owned (det (host_step cs rejects sys a), tmr (host_step cs rejects sys a))"
proof (cases a)
  case (Runs x)
  with step_owned [OF assms, of cs rejects x] show ?thesis by simp
next
  case (SetsIsOpen v)
  with assms show ?thesis by (simp add: owned_def)
next
  case (SetsIsUnlocked v)
  with assms show ?thesis by (simp add: owned_def)
qed

lemma host_run_owned:
  "owned (det sys, tmr sys) \<Longrightarrow>
     owned (det (host_run cs rejects sys acts), tmr (host_run cs rejects sys acts))"
  unfolding host_run_def
  by (induction acts arbitrary: sys) (simp_all add: host_step_owned)

lemma constructor_fields:
  "isOpen (fst (constructor cfg t)) = None"
  "isUnlocked (fst (constructor cfg t)) = None"
  "selectedAddress (fst (constructor cfg t)) =
     (case cfg_preferences cfg of None \<Rightarrow> None | Some p \<Rightarrow> pref_selectedAddress p)"
  "tokenAddresses (fst (constructor cfg t)) =
     (case cfg_tokensController cfg of None \<Rightarrow> None | Some tc \<Rightarrow> Some (map address (tokens tc)))"
  "hiddenTokens (fst (constructor cfg t)) =
     (case cfg_tokensController cfg of None \<Rightarrow> None | Some tc \<Rightarrow> Some (ignoredTokens tc))"
  "network (fst (constructor cfg t)) = cfg_network cfg"
  "web3 (fst (constructor cfg t)) = map_option provider (cfg_network cfg)"
  "keyringMemStore (fst (constructor cfg t)) = cfg_keyringMemStore cfg"
  "tokensController (fst (constructor cfg t)) = cfg_tokensController cfg"
  "preferences (fst (constructor cfg t)) = cfg_preferences cfg"
  "subscriptions (fst (constructor cfg t)) =
     (case cfg_keyringMemStore cfg of None \<Rightarrow> [] | Some k \<Rightarrow> [KeyringFeed]) @
     (case cfg_preferences cfg of None \<Rightarrow> [] | Some p \<Rightarrow> [PreferencesFeed]) @
     (case cfg_tokensController cfg of None \<Rightarrow> [] | Some tc \<Rightarrow> [TokensFeed])"
  by (simp_all add: constructor_def Let_def set_network_def set_keyringMemStore_def
      set_interval_keeps blank_def split: option.splits)

lemma constructor_timers:
  "handle (fst (constructor cfg t)) =
     handle (fst (set_interval (case cfg_interval cfg of None \<Rightarrow> DEFAULT_INTERVAL | Some i \<Rightarrow> i)
        (blank\<lparr>tokensController := cfg_tokensController cfg, preferences := cfg_preferences cfg\<rparr>, t)))"
  "snd (constructor cfg t) =
     snd (set_interval (case cfg_interval cfg of None \<Rightarrow> DEFAULT_INTERVAL | Some i \<Rightarrow> i)
        (blank\<lparr>tokensController := cfg_tokensController cfg, preferences := cfg_preferences cfg\<rparr>, t))"
  by (simp_all add: constructor_def Let_def set_network_def set_keyringMemStore_def
      split: option.splits)

lemma constructor_owned:
  assumes "active t = []"
  shows "owned (constructor cfg t)"
proof -
  let ?s1 = "blank\<lparr>tokensController := cfg_tokensController cfg, preferences := cfg_preferences cfg\<rparr>"
  let ?i = "case cfg_interval cfg of None \<Rightarrow> DEFAULT_INTERVAL | Some i \<Rightarrow> i"
  have "owned (?s1, t)"
    using assms by (simp add: owned_def blank_def)
  then have "owned (set_interval ?i (?s1, t))"
    by (rule set_interval_owned(1))
  then have "owned (fst (set_interval ?i (?s1, t)), snd (set_interval ?i (?s1, t)))"
    by simp
  then have "owned (fst (constructor cfg t), snd (constructor cfg t))"
    by (simp add: owned_def constructor_timers split_beta)
  then show ?thesis by simp
qed

section \<open>Registration\<close>

text \<open>
  What the registration phase does. In a pass that is active, on mainnet and whose
  balance call succeeds, \<^verbatim>\<open>addToken(a, sy, dc)\<close> is among the calls if and only if \<open>a\<close>
  is a candidate at some index whose returned balance is strictly positive, no element
  of the ignored list that is an address string, in the list as the controller holds
  it after the call has settled, equals \<open>a\<close> up to letter case, and \<open>sy\<close> and \<open>dc\<close> are the
  symbol and decimals of the registry's entry for \<open>a\<close>. An element of the ignored list
  that is an object does not count: line 99 passes the element itself to the comparison.
\<close>

lemma registration_by_address_strings:
  assumes "isActive s" and "network s = Some nw" and "chainId nw = MAINNET_CHAIN_ID"
    and "web3 s = Some w"
    and "tokensToDetect cs (tokenAddresses s) (hiddenTokens s) (map fst cs) = Inr candidates"
    and "balances_reply orc (selectedAddress s) candidates = Inr result"
    and "hiddenTokens (during (s\<lparr>web3 := Some (provider nw)\<rparr>)) = Some hts"
    and "tokensController (during (s\<lparr>web3 := Some (provider nw)\<rparr>)) = Some tc"
  shows "AddToken a sy dc \<in> set (snd (snd (detectNewTokens cs orc during s))) \<longleftrightarrow>
           (\<exists>i b. i < length candidates \<and> candidates ! i = a \<and>
                  i < length result \<and> result ! i = Some b \<and> 0 < b) \<and>
           \<not> (\<exists>g. HiddenAddress g \<in> set hts \<and> toLowerCase g = toLowerCase a) \<and>
           (\<exists>c. map_of cs a = Some c \<and> sy = symbol c \<and> dc = decimals c)"
proof -
  let ?s1 = "s\<lparr>web3 := Some (provider nw)\<rparr>"
  have evs: "snd (snd (detectNewTokens cs orc during s)) =
               Balances (selectedAddress s) candidates #
               snd (detectNewTokens_resume cs (addToken_rejects orc) (during ?s1) candidates (Inr result))"
    using detectNewTokens_begin_open [OF assms(1-5)] assms(6)
    by (simp add: detectNewTokens_def Let_def)
  have mem: "AddToken a sy dc \<in> set (snd (detectNewTokens_resume cs (addToken_rejects orc)
                 (during ?s1) candidates (Inr result))) \<longleftrightarrow>
             (\<exists>i<length candidates. has_balance (js_index result i) \<and>
                \<not> (\<exists>g. HiddenAddress g \<in> set hts \<and> toLowerCase g = toLowerCase (candidates ! i)) \<and>
                (\<exists>c. map_of cs (candidates ! i) = Some c \<and> a = candidates ! i \<and>
                     sy = symbol c \<and> dc = decimals c))"
    unfolding resume_events [OF assms(7,8)]
    by (force split: option.splits if_splits)
  have "AddToken a sy dc \<in> set (snd (snd (detectNewTokens cs orc during s))) \<longleftrightarrow>
        AddToken a sy dc \<in> set (snd (detectNewTokens_resume cs (addToken_rejects orc)
                 (during ?s1) candidates (Inr result)))"
    by (simp add: evs)
  then show ?thesis
    unfolding mem has_balance_iff by blast
qed

text \<open>
  Scenario 1 of the spec: the registry holds \<open>X\<close>, nothing is tracked or ignored, the
  balance is 5; \<^verbatim>\<open>addToken\<close> is called with \<open>X\<close> and 18. When the address, in other
  letter case, enters the ignored list while the balance call is awaited, it is not.
\<close>

lemma registration_by_address_strings_example:
  "isActive active_detector \<and> network active_detector = Some mainnet \<and>
   chainId mainnet = MAINNET_CHAIN_ID \<and> web3 active_detector = Some 7 \<and>
   tokensToDetect registry_A (tokenAddresses active_detector) (hiddenTokens active_detector)
     (map fst registry_A) = Inr [''0xAb''] \<and>
   balances_reply (paying [Some 5]) (selectedAddress active_detector) [''0xAb''] = Inr [Some 5] \<and>
   AddToken ''0xAb'' ''X'' 18
     \<in> set (snd (snd (detectNewTokens registry_A (paying [Some 5]) id active_detector))) \<and>
   AddToken ''0xAb'' ''X'' 18
     \<notin> set (snd (snd (detectNewTokens registry_A (paying [Some 5])
                (on_tokens None (Some [HiddenAddress ''0xAB''])) active_detector)))"
proof -
  have h1: "isActive active_detector"
    by (simp add: isActive_def active_detector_def)
  have h2: "network active_detector = Some mainnet"
    by (simp add: active_detector_def)
  have h3: "chainId mainnet = MAINNET_CHAIN_ID"
    by (simp add: mainnet_def)
  have h4: "web3 active_detector = Some 7"
    by (simp add: active_detector_def)
  have h5: "tokensToDetect registry_A (tokenAddresses active_detector)
              (hiddenTokens active_detector) (map fst registry_A) = Inr [''0xAb'']"
    by (simp add: active_detector_def registry_A_def token_X_def)
  have h6: "balances_reply (paying [Some 5]) (selectedAddress active_detector) [''0xAb'']
              = Inr [Some 5]"
    by (simp add: paying_def)
  have h7: "hiddenTokens (id (active_detector\<lparr>web3 := Some (provider mainnet)\<rparr>)) = Some []"
    by (simp add: active_detector_def)
  have h8: "tokensController (id (active_detector\<lparr>web3 := Some (provider mainnet)\<rparr>))
              = Some \<lparr>tokens = [], ignoredTokens = []\<rparr>"
    by (simp add: active_detector_def)
  have yes: "AddToken ''0xAb'' ''X'' 18
          \<in> set (snd (snd (detectNewTokens registry_A (paying [Some 5]) id active_detector)))"
    unfolding registration_by_address_strings [where during = id, OF h1 h2 h3 h4 h5 h6 h7 h8]
    by (simp add: registry_A_def token_X_def)
  let ?during = "on_tokens None (Some [HiddenAddress ''0xAB''])"
  have k7: "hiddenTokens (?during (active_detector\<lparr>web3 := Some (provider mainnet)\<rparr>))
              = Some [HiddenAddress ''0xAB'']"
    by (simp add: on_tokens_def)
  have k8: "tokensController (?during (active_detector\<lparr>web3 := Some (provider mainnet)\<rparr>))
              = Some \<lparr>tokens = [], ignoredTokens = []\<rparr>"
    by (simp add: on_tokens_def active_detector_def)
  have no: "AddToken ''0xAb'' ''X'' 18
          \<notin> set (snd (snd (detectNewTokens registry_A (paying [Some 5]) ?during active_detector)))"
    unfolding registration_by_address_strings [where during = ?during, OF h1 h2 h3 h4 h5 h6 k7 k8]
    by (simp add: toLowerCase_def toLowerCase_char_def)
  from h1 h2 h3 h4 h5 h6 yes no show ?thesis by blast
qed

text \<open>
  C1. The claim: a candidate is registered if and only if its balance is positive and
  it is not in the ignored list as re-checked after the balance call. The code: line 99
  compares the element of the ignored list itself with the address, and an element
  that is an object with an \<^verbatim>\<open>address\<close>, as line 75 takes it to be, is no string and equals
  nothing. With the registry of scenario 1, a balance of 5, and the tokens feed
  delivering the token as ignored while the balance call is awaited, the token is
  registered all the same.
\<close>

theorem ignored_object_is_registered:
  "detectNewTokens registry_A (paying [Some 5])
     (on_tokens None (Some [HiddenObject (Some ''0xAB'')])) active_detector =
   (Resolved,
    active_detector\<lparr>hiddenTokens := Some [HiddenObject (Some ''0xAB'')]\<rparr>,
    [Balances (Some ''0xme'') [''0xAb''], AddToken ''0xAb'' ''X'' 18])"
  by (simp add: detectNewTokens_def detectNewTokens_begin_def detectNewTokens_resume_def
      register_token_def promise_all_def js_index_def on_tokens_def paying_def isActive_def
      active_detector_def mainnet_def registry_A_def token_X_def Let_def)

section \<open>The candidates\<close>

text \<open>
  C2. The claim: an entry of the registry whose address equals an address of the
  ignored list, up to letter case, is not among the addresses of the balance call. The
  code: line 75 compares the \<^verbatim>\<open>address\<close> property of an element of the ignored list, and
  an element that is an address string, as line 99 takes it to be, has none. With the
  registry of scenario 3 and its address in the ignored list, the address is fetched.
  (\<open>ignored_object_excluded\<close> above: an element that is an object with an \<^verbatim>\<open>address\<close>
  is excluded.)
\<close>

theorem ignored_address_is_fetched:
  "detectNewTokens_begin registry_A (active_detector\<lparr>hiddenTokens := Some [HiddenAddress ''0xab'']\<rparr>) =
     (Awaiting [''0xAb''], active_detector\<lparr>hiddenTokens := Some [HiddenAddress ''0xab'']\<rparr>,
      [Balances (Some ''0xme'') [''0xAb'']])"
  by (simp add: detectNewTokens_begin_def isActive_def active_detector_def mainnet_def
      registry_A_def token_X_def)

text \<open>
  C3. The claim: the candidates are the fungible addresses of the registry without the
  tracked and without the ignored ones. The code, by \<open>tracked_address_excluded\<close> and
  \<open>tokensToDetect_filter\<close> above, leaves out the tracked addresses and the objects of
  the ignored list, and keeps an address the ignored list holds as a string: of two
  fungible entries, one tracked and one ignored, the ignored one is a candidate.
\<close>

theorem candidates_keep_ignored_address:
  "tokensToDetect registry_AB (Some [''0xcD'']) (Some [HiddenAddress ''0xAB''])
     (map fst registry_AB) = Inr [''0xAb'']"
  by (simp add: registry_AB_def token_X_def token_Y_def toLowerCase_def toLowerCase_char_def)

section \<open>The gates\<close>

text \<open>
  C4. Unless \<^verbatim>\<open>isOpen\<close> and \<^verbatim>\<open>isUnlocked\<close> are both true and the chain identifier of
  the network is the mainnet identifier, a pass resolves without an error, leaves the
  controller as it was, and calls neither the balance contract nor the registry. This
  holds for every value of the two flags and every chain identifier.
\<close>

theorem detection_gates:
  assumes "\<not> (isOpen s = Some True \<and> isUnlocked s = Some True) \<or>
           (\<exists>nw. network s = Some nw \<and> chainId nw \<noteq> MAINNET_CHAIN_ID)"
  shows "detectNewTokens cs orc during s = (Resolved, s, [])"
proof -
  from assms have "\<not> isActive s \<or> (\<exists>nw. network s = Some nw \<and> chainId nw \<noteq> MAINNET_CHAIN_ID)"
    by (simp add: isActive_def)
  then have "detectNewTokens_begin cs s = (Settled Resolved, s, [])"
    by (rule detectNewTokens_begin_gated)
  then show ?thesis
    by (simp add: detectNewTokens_def)
qed

text \<open>Scenario 5 of the spec (not open, unlocked), and an open, unlocked controller off mainnet.\<close>

theorem detection_gates_witness:
  "isOpen (active_detector\<lparr>isOpen := Some False\<rparr>) = Some False \<and>
   detectNewTokens registry_A (paying [Some 5]) id (active_detector\<lparr>isOpen := Some False\<rparr>)
     = (Resolved, active_detector\<lparr>isOpen := Some False\<rparr>, []) \<and>
   network (active_detector\<lparr>network := Some \<lparr>chainId = ''0x3'', provider = 7\<rparr>\<rparr>)
     = Some \<lparr>chainId = ''0x3'', provider = 7\<rparr> \<and>
   ''0x3'' \<noteq> MAINNET_CHAIN_ID \<and>
   detectNewTokens registry_A (paying [Some 5]) id
       (active_detector\<lparr>network := Some \<lparr>chainId = ''0x3'', provider = 7\<rparr>\<rparr>)
     = (Resolved, active_detector\<lparr>network := Some \<lparr>chainId = ''0x3'', provider = 7\<rparr>\<rparr>, [])"
proof -
  have a: "isOpen (active_detector\<lparr>isOpen := Some False\<rparr>) = Some False"
    by simp
  have b: "network (active_detector\<lparr>network := Some \<lparr>chainId = ''0x3'', provider = 7\<rparr>\<rparr>)
             = Some \<lparr>chainId = ''0x3'', provider = 7\<rparr>"
    by simp
  have c: "''0x3'' \<noteq> MAINNET_CHAIN_ID"
    by (simp add: MAINNET_CHAIN_ID_def)
  have "detectNewTokens registry_A (paying [Some 5]) id (active_detector\<lparr>isOpen := Some False\<rparr>)
          = (Resolved, active_detector\<lparr>isOpen := Some False\<rparr>, [])"
    by (rule detection_gates) (simp add: a)
  moreover have "detectNewTokens registry_A (paying [Some 5]) id
       (active_detector\<lparr>network := Some \<lparr>chainId = ''0x3'', provider = 7\<rparr>\<rparr>)
     = (Resolved, active_detector\<lparr>network := Some \<lparr>chainId = ''0x3'', provider = 7\<rparr>\<rparr>, [])"
    by (rule detection_gates) (simp add: c)
  ultimately show ?thesis using a b c by blast
qed

section \<open>A failing balance call\<close>

text \<open>
  C5. When the balance call of a pass fails, the pass logs one warning, with the fixed
  message of the operation and the error, calls \<^verbatim>\<open>addToken\<close> for no token, and resolves:
  the error does not reach the caller.
\<close>

theorem fetch_failure:
  assumes "isActive s" and "network s = Some nw" and "chainId nw = MAINNET_CHAIN_ID"
    and "web3 s = Some w"
    and "tokensToDetect cs (tokenAddresses s) (hiddenTokens s) (map fst cs) = Inr candidates"
    and "balances_reply orc (selectedAddress s) candidates = Inl err"
  shows "detectNewTokens cs orc during s =
           (Resolved, during (s\<lparr>web3 := Some (provider nw)\<rparr>),
            [Balances (selectedAddress s) candidates, Warn fetch_failed_message err])"
  using detectNewTokens_begin_open [OF assms(1-5)] assms(6)
  by (simp add: detectNewTokens_def detectNewTokens_resume_def Let_def)

text \<open>Scenario 4 of the spec: the balance call fails with a timeout.\<close>

theorem fetch_failure_witness:
  "isActive active_detector \<and> network active_detector = Some mainnet \<and>
   chainId mainnet = MAINNET_CHAIN_ID \<and> web3 active_detector = Some 7 \<and>
   tokensToDetect registry_A (tokenAddresses active_detector) (hiddenTokens active_detector)
     (map fst registry_A) = Inr [''0xAb''] \<and>
   balances_reply (failing (RpcError ''timeout'')) (selectedAddress active_detector) [''0xAb'']
     = Inl (RpcError ''timeout'') \<and>
   detectNewTokens registry_A (failing (RpcError ''timeout'')) id active_detector =
     (Resolved, active_detector,
      [Balances (Some ''0xme'') [''0xAb''],
       Warn ''MetaMask - DetectTokensController single call balance fetch failed''
         (RpcError ''timeout'')])"
proof -
  have h1: "isActive active_detector"
    by (simp add: isActive_def active_detector_def)
  have h2: "network active_detector = Some mainnet"
    by (simp add: active_detector_def)
  have h3: "chainId mainnet = MAINNET_CHAIN_ID"
    by (simp add: mainnet_def)
  have h4: "web3 active_detector = Some 7"
    by (simp add: active_detector_def)
  have h5: "tokensToDetect registry_A (tokenAddresses active_detector)
              (hiddenTokens active_detector) (map fst registry_A) = Inr [''0xAb'']"
    by (simp add: active_detector_def registry_A_def token_X_def)
  have h6: "balances_reply (failing (RpcError ''timeout'')) (selectedAddress active_detector)
              [''0xAb''] = Inl (RpcError ''timeout'')"
    by (simp add: failing_def)
  have "detectNewTokens registry_A (failing (RpcError ''timeout'')) id active_detector =
     (Resolved, active_detector,
      [Balances (Some ''0xme'') [''0xAb''],
       Warn ''MetaMask - DetectTokensController single call balance fetch failed''
         (RpcError ''timeout'')])"
    unfolding fetch_failure [where during = id, OF h1 h2 h3 h4 h5 h6]
    by (simp add: active_detector_def mainnet_def fetch_failed_message_def)
  with h1 h2 h3 h4 h5 h6 show ?thesis by blast
qed

section \<open>Balances are paired with candidates by position\<close>

text \<open>
  C9. The registrations of a pass are those of the indices of the candidate list, in
  order: the candidate at index \<open>i\<close> is registered on the value the reply holds at index
  \<open>i\<close>, whatever address that value was computed for. A candidate whose index is past
  the end of the reply or holds no value is not registered.
\<close>

theorem positional_pairing:
  assumes "hiddenTokens s = Some hts" and "tokensController s = Some tc"
  shows "snd (detectNewTokens_resume cs rejects s candidates (Inr result)) =
           concat (map (\<lambda>i.
             if (\<exists>b. i < length result \<and> result ! i = Some b \<and> 0 < b) \<and>
                \<not> (\<exists>g. HiddenAddress g \<in> set hts \<and> toLowerCase g = toLowerCase (candidates ! i))
             then (case map_of cs (candidates ! i) of
                     None \<Rightarrow> []
                   | Some c \<Rightarrow> [AddToken (candidates ! i) (symbol c) (decimals c)])
             else []) [0..<length candidates]) \<and>
         (\<forall>i sy dc. i < length candidates \<and> distinct candidates \<and> js_index result i = None \<longrightarrow>
            AddToken (candidates ! i) sy dc
              \<notin> set (snd (detectNewTokens_resume cs rejects s candidates (Inr result))))"
proof (intro conjI allI impI)
  show "snd (detectNewTokens_resume cs rejects s candidates (Inr result)) =
           concat (map (\<lambda>i.
             if (\<exists>b. i < length result \<and> result ! i = Some b \<and> 0 < b) \<and>
                \<not> (\<exists>g. HiddenAddress g \<in> set hts \<and> toLowerCase g = toLowerCase (candidates ! i))
             then (case map_of cs (candidates ! i) of
                     None \<Rightarrow> []
                   | Some c \<Rightarrow> [AddToken (candidates ! i) (symbol c) (decimals c)])
             else []) [0..<length candidates])"
    unfolding resume_events [OF assms] has_balance_iff ..
next
  fix i sy dc
  assume a: "i < length candidates \<and> distinct candidates \<and> js_index result i = None"
  show "AddToken (candidates ! i) sy dc
          \<notin> set (snd (detectNewTokens_resume cs rejects s candidates (Inr result)))"
  proof
    assume "AddToken (candidates ! i) sy dc
          \<in> set (snd (detectNewTokens_resume cs rejects s candidates (Inr result)))"
    then obtain j where j: "j < length candidates" "has_balance (js_index result j)"
        "candidates ! j = candidates ! i"
      unfolding resume_events [OF assms]
      by (auto split: option.splits if_splits)
    with a have "j = i"
      by (simp add: nth_eq_iff_index_eq)
    with j a show False by simp
  qed
qed

text \<open>
  Two candidates and a reply with a hole at index 0: only the second is registered. A
  reply of one value registers only the first.
\<close>

theorem positional_pairing_witness:
  "hiddenTokens active_detector = Some [] \<and>
   tokensController active_detector = Some \<lparr>tokens = [], ignoredTokens = []\<rparr> \<and>
   snd (detectNewTokens_resume registry_AB (\<lambda>a. False) active_detector [''0xAb'', ''0xCd'']
          (Inr [None, Some 5])) = [AddToken ''0xCd'' ''Y'' 6] \<and>
   snd (detectNewTokens_resume registry_AB (\<lambda>a. False) active_detector [''0xAb'', ''0xCd'']
          (Inr [Some 5])) = [AddToken ''0xAb'' ''X'' 18] \<and>
   distinct [''0xAb'', ''0xCd''] \<and> js_index [None, Some (5::nat)] 0 = None \<and>
   AddToken ''0xAb'' ''X'' 18
     \<notin> set (snd (detectNewTokens_resume registry_AB (\<lambda>a. False) active_detector
                     [''0xAb'', ''0xCd''] (Inr [None, Some 5])))"
proof -
  have h1: "hiddenTokens active_detector = Some []"
    by (simp add: active_detector_def)
  have h2: "tokensController active_detector = Some \<lparr>tokens = [], ignoredTokens = []\<rparr>"
    by (simp add: active_detector_def)
  have two: "[0..<length [''0xAb'', ''0xCd'']] = [0, 1]"
    by (simp add: upt_conv_Cons)
  have "snd (detectNewTokens_resume registry_AB (\<lambda>a. False) active_detector [''0xAb'', ''0xCd'']
          (Inr [None, Some 5])) = [AddToken ''0xCd'' ''Y'' 6]"
    unfolding positional_pairing [OF h1 h2, THEN conjunct1] two
    by (simp add: registry_AB_def token_X_def token_Y_def)
  moreover have "snd (detectNewTokens_resume registry_AB (\<lambda>a. False) active_detector
          [''0xAb'', ''0xCd''] (Inr [Some 5])) = [AddToken ''0xAb'' ''X'' 18]"
    unfolding positional_pairing [OF h1 h2, THEN conjunct1] two
    by (simp add: registry_AB_def token_X_def token_Y_def)
  moreover have d: "distinct [''0xAb'', ''0xCd''] \<and> js_index [None, Some (5::nat)] 0 = None"
    by (simp add: js_index_def)
  moreover have "AddToken ''0xAb'' ''X'' 18
     \<notin> set (snd (detectNewTokens_resume registry_AB (\<lambda>a. False) active_detector
                     [''0xAb'', ''0xCd''] (Inr [None, Some 5])))"
    using positional_pairing [where cs = registry_AB and rejects = "\<lambda>a. False"
        and candidates = "[''0xAb'', ''0xCd'']" and result = "[None, Some 5]",
        OF h1 h2, THEN conjunct2, rule_format, of 0 "''X''" 18] d
    by simp
  ultimately show ?thesis using h1 h2 by blast
qed

section \<open>Restarting detection\<close>

text \<open>
  C6. \<^verbatim>\<open>restartTokenDetection\<close> does nothing unless the controller is active and has a
  selected address. Otherwise it starts a pass at once (the events and the progress
  are those of \<^verbatim>\<open>detectNewTokens\<close> up to its first \<^verbatim>\<open>await\<close>) and sets the interval
  to the default of three minutes: on a controller that owns its timers, the timer
  table then holds exactly one timer, new, of 180000 ms, and the handle names it.
\<close>

theorem restart_detection:
  assumes "owned (s, t)"
  shows "(\<not> (isActive s \<and> truthy (selectedAddress s)) \<longrightarrow>
            restartTokenDetection cs (s, t) = ((s, t), [], None)) \<and>
         (isActive s \<and> truthy (selectedAddress s) \<longrightarrow>
            (let b = detectNewTokens_begin cs s; r = restartTokenDetection cs (s, t)
             in snd r = (snd (snd b), Some (fst b)) \<and>
                fst r = set_interval DEFAULT_INTERVAL (fst (snd b), t) \<and>
                active (snd (fst r)) = [(next_id t, 180000)] \<and>
                handle (fst (fst r)) = Some (next_id t)))"
proof (intro conjI impI)
  assume "\<not> (isActive s \<and> truthy (selectedAddress s))"
  then show "restartTokenDetection cs (s, t) = ((s, t), [], None)"
    by (rule restart_inactive)
next
  assume a: "isActive s \<and> truthy (selectedAddress s)"
  obtain p s1 evs where b: "detectNewTokens_begin cs s = (p, s1, evs)"
    by (cases "detectNewTokens_begin cs s")
  have "handle s1 = handle s"
    using begin_handle [of cs s] b by simp
  with assms have o: "owned (s1, t)"
    by (simp add: owned_def)
  have d: "DEFAULT_INTERVAL = 180000"
    by (simp add: DEFAULT_INTERVAL_def MINUTE_def)
  have r: "restartTokenDetection cs (s, t) = (set_interval DEFAULT_INTERVAL (s1, t), evs, Some p)"
    using a b by (simp add: restartTokenDetection_def)
  show "let b = detectNewTokens_begin cs s; r = restartTokenDetection cs (s, t)
        in snd r = (snd (snd b), Some (fst b)) \<and>
           fst r = set_interval DEFAULT_INTERVAL (fst (snd b), t) \<and>
           active (snd (fst r)) = [(next_id t, 180000)] \<and>
           handle (fst (fst r)) = Some (next_id t)"
    using set_interval_owned(2,3) [OF o, of DEFAULT_INTERVAL]
    by (simp add: Let_def r b d)
qed

text \<open>
  An open, unlocked controller with a selected address: the balance call is issued and
  the timer re-armed. The same controller locked: nothing happens.
\<close>

theorem restart_detection_witness:
  "owned (active_detector, one_timer) \<and> isActive active_detector \<and>
   truthy (selectedAddress active_detector) \<and>
   snd (restartTokenDetection registry_A (active_detector, one_timer)) =
     ([Balances (Some ''0xme'') [''0xAb'']], Some (Awaiting [''0xAb''])) \<and>
   active (snd (fst (restartTokenDetection registry_A (active_detector, one_timer)))) =
     [(2, 180000)] \<and>
   owned (active_detector\<lparr>isUnlocked := Some False\<rparr>, one_timer) \<and>
   \<not> isActive (active_detector\<lparr>isUnlocked := Some False\<rparr>) \<and>
   restartTokenDetection registry_A (active_detector\<lparr>isUnlocked := Some False\<rparr>, one_timer) =
     ((active_detector\<lparr>isUnlocked := Some False\<rparr>, one_timer), [], None)"
proof -
  have o1: "owned (active_detector, one_timer)"
    by (simp add: owned_def active_detector_def one_timer_def)
  have a1: "isActive active_detector \<and> truthy (selectedAddress active_detector)"
    by (simp add: isActive_def active_detector_def)
  have b: "detectNewTokens_begin registry_A active_detector =
             (Awaiting [''0xAb''], active_detector, [Balances (Some ''0xme'') [''0xAb'']])"
    by (simp add: detectNewTokens_begin_def isActive_def active_detector_def mainnet_def
        registry_A_def token_X_def)
  have n: "next_id one_timer = 2"
    by (simp add: one_timer_def)
  from restart_detection [OF o1, of registry_A] a1
  have r1: "snd (restartTokenDetection registry_A (active_detector, one_timer)) =
              ([Balances (Some ''0xme'') [''0xAb'']], Some (Awaiting [''0xAb''])) \<and>
            active (snd (fst (restartTokenDetection registry_A (active_detector, one_timer)))) =
              [(2, 180000)]"
    unfolding Let_def b n fst_conv snd_conv by blast
  have o2: "owned (active_detector\<lparr>isUnlocked := Some False\<rparr>, one_timer)"
    by (simp add: owned_def active_detector_def one_timer_def)
  have a2: "\<not> isActive (active_detector\<lparr>isUnlocked := Some False\<rparr>)"
    by (simp add: isActive_def)
  from restart_detection [OF o2, of registry_A] a2
  have r2: "restartTokenDetection registry_A (active_detector\<lparr>isUnlocked := Some False\<rparr>, one_timer) =
     ((active_detector\<lparr>isUnlocked := Some False\<rparr>, one_timer), [], None)"
    by simp
  from o1 a1 r1 o2 a2 r2 show ?thesis by blast
qed

section \<open>The interval setter\<close>

text \<open>
  C7, as amended. Whenever the controller owns its timers (at most one timer is active
  and the handle names it), whatever its flags and other fields are, the setter first
  cancels that timer; for an interval of 0 it installs none and leaves the handle as
  it was, otherwise it installs exactly one, new, with the interval given, and the
  handle names it; the controller owns its timers afterwards, and after two calls only
  the second interval has a timer. The controller owns its timers at any time: from
  its construction on, through everything that runs its code and every assignment of
  the host to its flags.
\<close>

theorem interval_setter:
  "(owned (s, t) \<longrightarrow>
      length (active t) \<le> 1 \<and>
      list_all (\<lambda>hp. handle s = Some (fst hp) \<and> fst hp < next_id t) (active t) \<and>
      owned (set_interval i (s, t)) \<and>
      active (snd (set_interval i (s, t))) = (if i = 0 then [] else [(next_id t, i)]) \<and>
      handle (fst (set_interval i (s, t))) = (if i = 0 then handle s else Some (next_id t)) \<and>
      map snd (active (snd (set_interval j (set_interval i (s, t))))) = (if j = 0 then [] else [j]) \<and>
      length (active (snd (set_interval j (set_interval i (s, t))))) \<le> 1) \<and>
   (active t0 = [] \<longrightarrow>
      owned (det (host_run cs rejects (constructed cfg t0) hacts),
             tmr (host_run cs rejects (constructed cfg t0) hacts)))"
proof (intro conjI impI)
  assume o: "owned (s, t)"
  then show "length (active t) \<le> 1"
    by (simp add: owned_def)
  from o show "list_all (\<lambda>hp. handle s = Some (fst hp) \<and> fst hp < next_id t) (active t)"
    by (auto simp: owned_def list_all_iff)
  from o show o1: "owned (set_interval i (s, t))"
    by (rule set_interval_owned(1))
  from o show "active (snd (set_interval i (s, t))) = (if i = 0 then [] else [(next_id t, i)])"
    by (rule set_interval_owned(2))
  from o show "handle (fst (set_interval i (s, t))) = (if i = 0 then handle s else Some (next_id t))"
    by (rule set_interval_owned(3))
  obtain s1 t1 where st: "set_interval i (s, t) = (s1, t1)"
    by (cases "set_interval i (s, t)")
  have two: "active (snd (set_interval j (s1, t1))) = (if j = 0 then [] else [(next_id t1, j)])"
    using o1 unfolding st by (rule set_interval_owned(2))
  then show "map snd (active (snd (set_interval j (set_interval i (s, t))))) =
               (if j = 0 then [] else [j])"
    by (simp add: st)
  from two show "length (active (snd (set_interval j (set_interval i (s, t))))) \<le> 1"
    by (simp add: st)
next
  assume "active t0 = []"
  then have "owned (det (constructed cfg t0), tmr (constructed cfg t0))"
    using constructor_owned [of t0 cfg] by (simp add: constructed_def Let_def)
  then show "owned (det (host_run cs rejects (constructed cfg t0) hacts),
                    tmr (host_run cs rejects (constructed cfg t0) hacts))"
    by (rule host_run_owned)
qed

text \<open>
  An open, unlocked controller with one timer of three minutes: setting 1000 replaces
  it, setting 0 after that leaves none. A fully configured controller that the host
  opens and the keyring then unlocks is active, has restarted detection and owns the
  one timer line 137 installed.
\<close>

theorem interval_setter_witness:
  "owned (active_detector, one_timer) \<and> isActive active_detector \<and>
   active (snd (set_interval 1000 (active_detector, one_timer))) = [(2, 1000)] \<and>
   active (snd (set_interval 0 (set_interval 1000 (active_detector, one_timer)))) = [] \<and>
   active no_timers = [] \<and>
   isActive (det (host_run registry_A (\<lambda>a. False) (constructed full no_timers)
       [SetsIsOpen (Some True), Runs (KeyringUpdate (Some True))])) \<and>
   active (tmr (host_run registry_A (\<lambda>a. False) (constructed full no_timers)
       [SetsIsOpen (Some True), Runs (KeyringUpdate (Some True))])) = [(2, 180000)] \<and>
   owned (det (host_run registry_A (\<lambda>a. False) (constructed full no_timers)
            [SetsIsOpen (Some True), Runs (KeyringUpdate (Some True))]),
          tmr (host_run registry_A (\<lambda>a. False) (constructed full no_timers)
            [SetsIsOpen (Some True), Runs (KeyringUpdate (Some True))]))"
proof -
  let ?acts = "[SetsIsOpen (Some True), Runs (KeyringUpdate (Some True))]"
  let ?sys = "host_run registry_A (\<lambda>a. False) (constructed full no_timers) ?acts"
  have o: "owned (active_detector, one_timer)"
    by (simp add: owned_def active_detector_def one_timer_def)
  have a: "isActive active_detector"
    by (simp add: isActive_def active_detector_def)
  have n: "next_id one_timer = 2"
    by (simp add: one_timer_def)
  have h: "active no_timers = []"
    by (simp add: no_timers_def)
  note setter = interval_setter [of active_detector one_timer 1000 0 no_timers registry_A
      "\<lambda>a. False" full ?acts]
  from setter o n
  have one: "active (snd (set_interval 1000 (active_detector, one_timer))) = [(2, 1000)]"
    by simp
  from setter o
  have "map snd (active (snd (set_interval 0 (set_interval 1000 (active_detector, one_timer))))) = []"
    by simp
  then have none: "active (snd (set_interval 0 (set_interval 1000 (active_detector, one_timer)))) = []"
    by simp
  from setter h have own: "owned (det ?sys, tmr ?sys)"
    by blast
  have c: "constructor full no_timers =
             (blank\<lparr>tokensController := Some \<lparr>tokens = [], ignoredTokens = []\<rparr>,
                    preferences := Some \<lparr>pref_selectedAddress = Some ''0xme''\<rparr>,
                    network := Some mainnet, web3 := Some 7,
                    keyringMemStore := Some KeyringMemStore,
                    selectedAddress := Some ''0xme'', tokenAddresses := Some [],
                    hiddenTokens := Some [], handle := Some 1,
                    subscriptions := [KeyringFeed, PreferencesFeed, TokensFeed]\<rparr>,
              \<lparr>next_id = 2, active = [(1, 1000)]\<rparr>)"
    by (simp add: constructor_def full_def no_timers_def Let_def set_interval_def setInterval_def
        set_network_def set_keyringMemStore_def blank_def mainnet_def)
  have run: "isActive (det ?sys) \<and> active (tmr ?sys) = [(2, 180000)]"
    by (simp add: host_run_def constructed_def c Let_def on_keyring_def restartTokenDetection_def
        started_def isActive_def blank_def detectNewTokens_begin_def mainnet_def registry_A_def
        token_X_def set_interval_def setInterval_def clearInterval_def DEFAULT_INTERVAL_def
        MINUTE_def)
  from o a one none h run own show ?thesis by blast
qed

text \<open>
  The claim that the handle is non-null exactly when the interval is positive fails:
  after the interval is set to 0 the handle still holds the identifier of the
  cancelled timer.
\<close>

theorem stale_handle_counterexample:
  "\<not> (handle (fst (set_interval 0 (constructor bare no_timers))) \<noteq> None \<longleftrightarrow> (0::int) < 0) \<and>
   active (snd (set_interval 0 (constructor bare no_timers))) = []"
  by (simp add: constructor_def bare_def no_timers_def Let_def set_interval_def setInterval_def
      clearInterval_def set_network_def set_keyringMemStore_def blank_def DEFAULT_INTERVAL_def
      MINUTE_def)

section \<open>Missing collaborators\<close>

text \<open>
  C8, as amended. For every configuration the constructor returns a controller. For a
  collaborator that is absent the subscription is not made and the fields read from it
  are \<^verbatim>\<open>undefined\<close>: the selected address, the tracked and the ignored list (not empty
  lists), the network and its \<^verbatim>\<open>Web3\<close>, the keyring store. Without preferences
  \<^verbatim>\<open>restartTokenDetection\<close> does nothing whatever the two flags are, and a pass on the
  controller as constructed does nothing.
\<close>

theorem partial_configuration:
  "let d = fst (constructor cfg t) in
     (cfg_preferences cfg = None \<longrightarrow>
        selectedAddress d = None \<and> PreferencesFeed \<notin> set (subscriptions d) \<and>
        restartTokenDetection cs (d\<lparr>isOpen := a, isUnlocked := b\<rparr>, t') =
          ((d\<lparr>isOpen := a, isUnlocked := b\<rparr>, t'), [], None)) \<and>
     (cfg_tokensController cfg = None \<longrightarrow>
        tokenAddresses d = None \<and> hiddenTokens d = None \<and> TokensFeed \<notin> set (subscriptions d)) \<and>
     (cfg_network cfg = None \<longrightarrow> network d = None \<and> web3 d = None) \<and>
     (cfg_keyringMemStore cfg = None \<longrightarrow>
        keyringMemStore d = None \<and> KeyringFeed \<notin> set (subscriptions d)) \<and>
     isOpen d = None \<and> isUnlocked d = None \<and>
     detectNewTokens cs orc during d = (Resolved, d, [])"
proof -
  define d where "d = fst (constructor cfg t)"
  have inactive: "\<not> isActive d"
    by (simp add: d_def isActive_def constructor_fields)
  have pass: "detectNewTokens cs orc during d = (Resolved, d, [])"
    using begin_inactive [OF inactive] by (simp add: detectNewTokens_def)
  have restart: "cfg_preferences cfg = None \<Longrightarrow>
        restartTokenDetection cs (d\<lparr>isOpen := a, isUnlocked := b\<rparr>, t') =
          ((d\<lparr>isOpen := a, isUnlocked := b\<rparr>, t'), [], None)"
    by (rule restart_inactive) (simp add: d_def constructor_fields)
  show ?thesis
    unfolding Let_def d_def [symmetric]
    using pass restart
    by (auto simp: d_def constructor_fields split: option.splits)
qed

text \<open>The configuration with no collaborator at all.\<close>

theorem partial_configuration_witness:
  "cfg_preferences bare = None \<and> cfg_tokensController bare = None \<and>
   cfg_network bare = None \<and> cfg_keyringMemStore bare = None \<and>
   selectedAddress (fst (constructor bare no_timers)) = None \<and>
   tokenAddresses (fst (constructor bare no_timers)) = None \<and>
   hiddenTokens (fst (constructor bare no_timers)) = None \<and>
   network (fst (constructor bare no_timers)) = None \<and>
   subscriptions (fst (constructor bare no_timers)) = [] \<and>
   detectNewTokens registry_A (paying [Some 5]) id (fst (constructor bare no_timers)) =
     (Resolved, fst (constructor bare no_timers), [])"
proof -
  have h: "cfg_preferences bare = None \<and> cfg_tokensController bare = None \<and>
           cfg_network bare = None \<and> cfg_keyringMemStore bare = None"
    by (simp add: bare_def)
  have s: "subscriptions (fst (constructor bare no_timers)) = []"
    by (simp add: constructor_fields bare_def)
  from partial_configuration [of bare no_timers registry_A None None no_timers "paying [Some 5]" id] h s
  show ?thesis
    by (simp add: Let_def)
qed

text \<open>
  The claim that a read of a missing collaborator's list yields an empty list and does
  not raise fails: built with a network and no registry of tokens, then opened and
  unlocked by the host, the controller holds \<^verbatim>\<open>undefined\<close> for the tracked list, and a
  pass over a registry with a fungible entry rejects with a TypeError at line 71.
\<close>

theorem missing_registry_counterexample:
  "tokenAddresses (fst (constructor (bare\<lparr>cfg_network := Some mainnet\<rparr>) no_timers)) \<noteq> Some [] \<and>
   fst (detectNewTokens registry_A (paying [Some 5]) id
         ((fst (constructor (bare\<lparr>cfg_network := Some mainnet\<rparr>) no_timers))
            \<lparr>isOpen := Some True, isUnlocked := Some True\<rparr>)) = Rejected TypeError"
  by (simp add: constructor_fields bare_def detectNewTokens_def detectNewTokens_begin_def
      isActive_def mainnet_def registry_A_def token_X_def)

section \<open>Inactive until the host opens it\<close>

text \<open>
  C10. Whatever the configuration and whatever the controller's own code runs after
  the construction (timer ticks, calls of the two methods, notifications of the three
  feeds, the three setters, replies of the balance contract), \<^verbatim>\<open>isOpen\<close> stays
  \<^verbatim>\<open>undefined\<close>, the controller is not active, and no balance call and no registration
  has been made; a pass and a restart in such a state do nothing. The same holds for a
  pass and a restart in any state in which the two flags are not both true.
\<close>

theorem inactive_after_construction:
  "(let sys = run cs rejects (constructed cfg t) acts in
      isOpen (det sys) = None \<and> \<not> isActive (det sys) \<and> log sys = [] \<and> awaiting sys = [] \<and>
      detectNewTokens cs orc during (det sys) = (Resolved, det sys, []) \<and>
      restartTokenDetection cs (det sys, tmr sys) = ((det sys, tmr sys), [], None)) \<and>
   (\<not> (isOpen s = Some True \<and> isUnlocked s = Some True) \<longrightarrow>
      detectNewTokens cs orc during s = (Resolved, s, []) \<and>
      restartTokenDetection cs (s, t') = ((s, t'), [], None))"
proof (intro conjI impI)
  define sys where "sys = run cs rejects (constructed cfg t) acts"
  have "isOpen (det (constructed cfg t)) = None \<and> log (constructed cfg t) = [] \<and>
        awaiting (constructed cfg t) = []"
    by (simp add: constructed_def Let_def constructor_fields)
  then have idle: "isOpen (det sys) = None \<and> log sys = [] \<and> awaiting sys = []"
    unfolding sys_def by (rule run_idle)
  then have inactive: "\<not> isActive (det sys)"
    by (simp add: isActive_def)
  have pass: "detectNewTokens cs orc during (det sys) = (Resolved, det sys, [])"
    using begin_inactive [OF inactive] by (simp add: detectNewTokens_def)
  have restart: "restartTokenDetection cs (det sys, tmr sys) = ((det sys, tmr sys), [], None)"
    using inactive by (intro restart_inactive) simp
  show "let sys = run cs rejects (constructed cfg t) acts in
      isOpen (det sys) = None \<and> \<not> isActive (det sys) \<and> log sys = [] \<and> awaiting sys = [] \<and>
      detectNewTokens cs orc during (det sys) = (Resolved, det sys, []) \<and>
      restartTokenDetection cs (det sys, tmr sys) = ((det sys, tmr sys), [], None)"
    unfolding Let_def sys_def [symmetric]
    using idle inactive pass restart by simp
next
  assume "\<not> (isOpen s = Some True \<and> isUnlocked s = Some True)"
  then have inactive: "\<not> isActive s"
    by (simp add: isActive_def)
  show "detectNewTokens cs orc during s = (Resolved, s, [])"
    using begin_inactive [OF inactive] by (simp add: detectNewTokens_def)
  show "restartTokenDetection cs (s, t') = ((s, t'), [], None)"
    using inactive by (intro restart_inactive) simp
qed

text \<open>
  A fully configured controller is unlocked, its timer fires and a restart is asked:
  nothing is logged and no pass awaits. An open but locked controller does nothing.
\<close>

theorem inactive_after_construction_witness:
  "log (run registry_A (\<lambda>a. False) (constructed full no_timers)
          [KeyringUpdate (Some True), TimerFires, CallRestartTokenDetection]) = [] \<and>
   awaiting (run registry_A (\<lambda>a. False) (constructed full no_timers)
          [KeyringUpdate (Some True), TimerFires, CallRestartTokenDetection]) = [] \<and>
   isUnlocked (active_detector\<lparr>isUnlocked := Some False\<rparr>) = Some False \<and>
   detectNewTokens registry_A (paying [Some 5]) id (active_detector\<lparr>isUnlocked := Some False\<rparr>) =
     (Resolved, active_detector\<lparr>isUnlocked := Some False\<rparr>, [])"
proof -
  have u: "isUnlocked (active_detector\<lparr>isUnlocked := Some False\<rparr>) = Some False"
    by simp
  from inactive_after_construction [of registry_A "\<lambda>a. False" full no_timers
      "[KeyringUpdate (Some True), TimerFires, CallRestartTokenDetection]"
      "paying [Some 5]" id "active_detector\<lparr>isUnlocked := Some False\<rparr>" one_timer] u
  show ?thesis
    by (simp add: Let_def)
qed

end
